theory Spec2Isabelle
  imports Main
begin

section \<open>Strings\<close>

text \<open>
  A JavaScript string is modelled as a \<^typ>\<open>string\<close>: one \<^typ>\<open>char\<close> per code
  unit, for the code units \<open>0x00\<close> to \<open>0xFF\<close>. \<open>String.prototype.trim\<close> removes
  white space and line terminators from both ends; in this range they are the
  code units \<open>0x09\<close> to \<open>0x0D\<close>, \<open>0x20\<close> and \<open>0xA0\<close>.
\<close>

definition is_space :: "char \<Rightarrow> bool" where
  "is_space c \<longleftrightarrow>
     c \<in> set [CHR 0x09, CHR 0x0A, CHR 0x0B, CHR 0x0C, CHR 0x0D, CHR 0x20, CHR 0xA0]"

definition trim :: "string \<Rightarrow> string" where
  "trim s = rev (dropWhile is_space (rev (dropWhile is_space s)))"

definition startsWith :: "string \<Rightarrow> string \<Rightarrow> bool" where
  "startsWith s p \<longleftrightarrow> take (length p) s = p"

definition endsWith :: "string \<Rightarrow> string \<Rightarrow> bool" where
  "endsWith s p \<longleftrightarrow> length p \<le> length s \<and> drop (length s - length p) s = p"

fun str_includes :: "string \<Rightarrow> string \<Rightarrow> bool" where
  "str_includes [] p = (p = [])"
| "str_includes (x # xs) p = (startsWith (x # xs) p \<or> str_includes xs p)"

text \<open>\<open>s.replace(/\/$/, '')\<close>: one trailing slash is removed, if there is one.\<close>

definition stripTrailingSlash :: "string \<Rightarrow> string" where
  "stripTrailingSlash s = (if s \<noteq> [] \<and> last s = CHR ''/'' then butlast s else s)"

section \<open>Regular expressions\<close>

text \<open>
  The regular expressions of the source use literals, the quantifiers \<open>+\<close> and \<open>+?\<close>
  on character classes, \<open>?\<close> on literals and groups, capturing groups, and the
  anchors \<open>^\<close> and \<open>$\<close>. A character class is a predicate on characters.
\<close>

definition word_char :: "char \<Rightarrow> bool" where
  "word_char c \<longleftrightarrow>
     c \<in> set ''abcdefghijklmnopqrstuvwxyzABCDEFGHIJKLMNOPQRSTUVWXYZ0123456789_''"

text \<open>\<open>[\w\-\.]\<close>, \<open>[\w\-\.\/]\<close>, \<open>[^\/]\<close> and \<open>[^\/\:]\<close>.\<close>

definition wdd :: "char \<Rightarrow> bool" where
  "wdd c \<longleftrightarrow> word_char c \<or> c = CHR ''-'' \<or> c = CHR ''.''"

definition wdds :: "char \<Rightarrow> bool" where
  "wdds c \<longleftrightarrow> word_char c \<or> c = CHR ''-'' \<or> c = CHR ''.'' \<or> c = CHR ''/''"

definition not_slash :: "char \<Rightarrow> bool" where
  "not_slash c \<longleftrightarrow> c \<noteq> CHR ''/''"

definition not_slash_colon :: "char \<Rightarrow> bool" where
  "not_slash_colon c \<longleftrightarrow> c \<noteq> CHR ''/'' \<and> c \<noteq> CHR '':''"

datatype regex =
    Lit string
  | Plus "char \<Rightarrow> bool"
  | PlusLazy "char \<Rightarrow> bool"
  | Opt regex
  | Seq regex regex
  | Group nat regex

fun cat :: "regex list \<Rightarrow> regex" where
  "cat [] = Lit []"
| "cat [r] = r"
| "cat (r # rs) = Seq r (cat rs)"

text \<open>
  The captures of a match: the text of each group that took part in it, by group
  number. A group that did not take part has no entry (\<open>undefined\<close> in JavaScript).
\<close>

type_synonym captures = "(nat \<times> string) list"

text \<open>
  \<open>run r s\<close> lists every way in which \<open>r\<close> matches at the start of \<open>s\<close>, as the
  captures and the rest of the input, in the order in which a backtracking matcher
  tries them: a greedy quantifier the longest first, a lazy one the shortest first,
  an optional part before its omission.
\<close>

fun run :: "regex \<Rightarrow> string \<Rightarrow> (captures \<times> string) list" where
  "run (Lit l) s = (if startsWith s l then [([], drop (length l) s)] else [])"
| "run (Plus c) s =
     map (\<lambda>k. ([], drop k s)) (rev [1 ..< Suc (length (takeWhile c s))])"
| "run (PlusLazy c) s =
     map (\<lambda>k. ([], drop k s)) [1 ..< Suc (length (takeWhile c s))]"
| "run (Opt r) s = run r s @ [([], s)]"
| "run (Seq r1 r2) s =
     concat (map (\<lambda>(c1, s1). map (\<lambda>(c2, s2). (c1 @ c2, s2)) (run r2 s1)) (run r1 s))"
| "run (Group n r) s =
     map (\<lambda>(c, s'). ((n, take (length s - length s') s) # c, s')) (run r s)"

text \<open>The first way that ends at the end of the input (the anchor \<open>$\<close>).\<close>

fun first_full :: "(captures \<times> string) list \<Rightarrow> captures option" where
  "first_full [] = None"
| "first_full ((c, rest) # ms) = (if rest = [] then Some c else first_full ms)"

text \<open>\<open>/^r$/.test(s)\<close>: the match starts at the first character.\<close>

definition test :: "regex \<Rightarrow> string \<Rightarrow> bool" where
  "test r s \<longleftrightarrow> first_full (run r s) \<noteq> None"

text \<open>
  \<open>s.match(/r$/)\<close>: the start positions are tried from left to right; \<open>None\<close> is
  \<open>null\<close>.
\<close>

fun match_end :: "regex \<Rightarrow> string \<Rightarrow> captures option" where
  "match_end r [] = first_full (run r [])"
| "match_end r (x # xs) =
     (case first_full (run r (x # xs)) of
        Some c \<Rightarrow> Some c
      | None \<Rightarrow> match_end r xs)"

text \<open>
  \<open>m[i]\<close> for a match \<open>m\<close>. The groups read by the source take part in every match
  of their pattern (lemma \<open>extract_captures_defined\<close>), so the second case does not
  arise.
\<close>

definition capture :: "captures \<Rightarrow> nat \<Rightarrow> string" where
  "capture m i = (case map_of m i of Some v \<Rightarrow> v | None \<Rightarrow> undefined)"

section \<open>Types and interfaces\<close>

record GitRepository =
  url :: string
  name :: string
  normalizedUrl :: string

record CloneLocation =
  targetPath :: string
  cloneToRoot :: bool
  message :: string

record ProjectFileDetectionResult =
  hasCommonFiles :: bool
  detectedFiles :: "string list"

text \<open>The optional \<open>targetPath\<close> of a \<open>CloneResult\<close> is absent in a failure.\<close>

record CloneResult =
  success :: bool
  resultMessage :: string
  resultTargetPath :: "string option"

section \<open>Constants and configuration\<close>

definition COMMON_FILES :: "string list" where
  "COMMON_FILES =
    [''package.json'', ''package-lock.json'', ''pnpm-lock.yaml'', ''yarn.lock'',
     ''composer.json'', ''Gemfile'', ''requirements.txt'', ''Pipfile'',
     ''Cargo.toml'', ''go.mod'', ''pom.xml'', ''build.gradle'',
     ''Makefile'', ''CMakeLists.txt'', ''tsconfig.json'', ''jsconfig.json'',
     ''.gitignore'', ''README.md'', ''README.rst'', ''README.txt'',
     ''LICENSE'', ''LICENSE.txt'', ''LICENSE.md'',
     ''.env'', ''.env.example'', ''docker-compose.yml'', ''Dockerfile'', ''.git'']"

definition COMMON_DIRECTORIES :: "string list" where
  "COMMON_DIRECTORIES =
    [''src'', ''lib'', ''dist'', ''build'', ''out'', ''target'', ''bin'',
     ''node_modules'', ''.git'', ''.vscode'', ''test'', ''tests'', ''spec'',
     ''docs'', ''public'', ''assets'', ''static'']"

text \<open>\<open>GitProviderPatterns.PATTERNS\<close>; every pattern is anchored at both ends.\<close>

definition PATTERNS :: "regex list" where
  "PATTERNS =
    [cat [Lit ''http'', Opt (Lit ''s''), Lit ''://github.com/'', Plus wdd, Lit ''/'', Plus wdd,
          Opt (Lit ''.git''), Opt (Lit ''/'')],
     cat [Lit ''http'', Opt (Lit ''s''), Lit ''://gitlab.com/'', Plus wdd, Lit ''/'', Plus wdd,
          Opt (Lit ''.git''), Opt (Lit ''/'')],
     cat [Lit ''http'', Opt (Lit ''s''), Lit ''://bitbucket.org/'', Plus wdd, Lit ''/'', Plus wdd,
          Opt (Lit ''.git''), Opt (Lit ''/'')],

     cat [Lit ''http'', Opt (Lit ''s''), Lit ''://git.'', Plus wdd, Lit ''/'', Plus wdds,
          Opt (Lit ''.git''), Opt (Lit ''/'')],
     cat [Lit ''http'', Opt (Lit ''s''), Lit ''://gitlab.'', Plus wdd, Lit ''/'', Plus wdds,
          Opt (Lit ''.git''), Opt (Lit ''/'')],
     cat [Lit ''http'', Opt (Lit ''s''), Lit ''://gitea.'', Plus wdd, Lit ''/'', Plus wdds,
          Opt (Lit ''.git''), Opt (Lit ''/'')],
     cat [Lit ''http'', Opt (Lit ''s''), Lit ''://gitiles.'', Plus wdd, Lit ''/'', Plus wdds,
          Opt (Lit ''.git''), Opt (Lit ''/'')],
     cat [Lit ''http'', Opt (Lit ''s''), Lit ''://cgit.'', Plus wdd, Lit ''/'', Plus wdds,
          Opt (Lit ''.git''), Opt (Lit ''/'')],

     cat [Lit ''http'', Opt (Lit ''s''), Lit ''://'', Plus wdd, Lit ''/'', Plus wdds,
          Lit ''.git'', Opt (Lit ''/'')],
     cat [Lit ''http'', Opt (Lit ''s''), Lit ''://'', Plus wdd, Lit ''/git/'', Plus wdds,
          Opt (Lit ''.git''), Opt (Lit ''/'')],
     cat [Lit ''http'', Opt (Lit ''s''), Lit ''://'', Plus wdd, Lit ''/repo'', Opt (Lit ''s''),
          Lit ''/'', Plus wdds, Opt (Lit ''.git''), Opt (Lit ''/'')],
     cat [Lit ''http'', Opt (Lit ''s''), Lit ''://'', Plus wdd, Lit ''/scm/'', Plus wdds,
          Opt (Lit ''.git''), Opt (Lit ''/'')],
     cat [Lit ''http'', Opt (Lit ''s''), Lit ''://'', Plus wdd, Lit ''/projects/'', Plus wdds,
          Opt (Lit ''.git''), Opt (Lit ''/'')],

     cat [Lit ''git@github.com:'', Plus wdd, Lit ''/'', Plus wdd, Lit ''.git''],
     cat [Lit ''git@gitlab.com:'', Plus wdd, Lit ''/'', Plus wdd, Lit ''.git''],
     cat [Lit ''git@bitbucket.org:'', Plus wdd, Lit ''/'', Plus wdd, Lit ''.git''],

     cat [Lit ''git@'', Plus wdd, Lit '':'', Plus wdds, Lit ''.git''],
     cat [Plus wdd, Lit ''@'', Plus wdd, Lit '':'', Plus wdds, Lit ''.git''],

     cat [Lit ''ssh://git@'', Plus wdd, Lit ''/'', Plus wdds, Opt (Lit ''.git''), Opt (Lit ''/'')],
     cat [Lit ''ssh://'', Plus wdd, Lit ''@'', Plus wdd, Lit ''/'', Plus wdds,
          Opt (Lit ''.git''), Opt (Lit ''/'')],

     cat [Lit ''git://'', Plus wdd, Lit ''/'', Plus wdds, Opt (Lit ''.git''), Opt (Lit ''/'')]]"

section \<open>GitUrlValidator\<close>

definition isValid :: "string \<Rightarrow> bool" where
  "isValid u \<longleftrightarrow> trim u \<noteq> [] \<and> list_ex (\<lambda>pattern. test pattern (trim u)) PATTERNS"

definition knownProviders :: "regex list" where
  "knownProviders =
    [cat [Lit ''http'', Opt (Lit ''s''), Lit ''://github.com/'', Plus wdd, Lit ''/'', Plus wdd],
     cat [Lit ''http'', Opt (Lit ''s''), Lit ''://gitlab.com/'', Plus wdd, Lit ''/'', Plus wdd],
     cat [Lit ''http'', Opt (Lit ''s''), Lit ''://bitbucket.org/'', Plus wdd, Lit ''/'', Plus wdd]]"

definition isKnownProvider :: "string \<Rightarrow> bool" where
  "isKnownProvider u \<longleftrightarrow> list_ex (\<lambda>pattern. test pattern u) knownProviders"

definition repoPatterns :: "regex list" where
  "repoPatterns =
    [cat [Lit ''http'', Opt (Lit ''s''), Lit ''://'', Plus wdd, Lit ''/'', Plus wdd, Lit ''/'',
          Plus wdd],
     cat [Lit ''http'', Opt (Lit ''s''), Lit ''://'', Plus wdd, Lit ''/git/'', Plus wdd],
     cat [Lit ''http'', Opt (Lit ''s''), Lit ''://'', Plus wdd, Lit ''/repo'', Opt (Lit ''s''),
          Lit ''/'', Plus wdd],
     cat [Lit ''http'', Opt (Lit ''s''), Lit ''://'', Plus wdd, Lit ''/scm/'', Plus wdd],
     cat [Lit ''http'', Opt (Lit ''s''), Lit ''://'', Plus wdd, Lit ''/projects/'', Plus wdd]]"

definition looksLikeRepositoryUrl :: "string \<Rightarrow> bool" where
  "looksLikeRepositoryUrl u \<longleftrightarrow> list_ex (\<lambda>pattern. test pattern u) repoPatterns"

definition normalize :: "string \<Rightarrow> string" where
  "normalize u =
     (let trimmedUrl = trim u in
      if startsWith trimmedUrl ''git@'' \<or> startsWith trimmedUrl ''ssh://''
         \<or> startsWith trimmedUrl ''git://''
      then trimmedUrl
      else if startsWith trimmedUrl ''http://'' \<or> startsWith trimmedUrl ''https://''
      then
        (let cleanUrl = stripTrailingSlash trimmedUrl in
         if endsWith cleanUrl ''.git'' then cleanUrl
         else if isKnownProvider cleanUrl then cleanUrl @ ''.git''
         else if looksLikeRepositoryUrl cleanUrl then cleanUrl @ ''.git''
         else cleanUrl)
      else trimmedUrl)"

text \<open>
  The three patterns of \<open>extractRepositoryName\<close>; each ends with \<open>$\<close> and may
  start anywhere:
  \<open>/:([^\/]+\/)?([^\/]+?)(?:\.git)?$/\<close>, \<open>/\/([^\/]+?)(?:\.git)?(?:\/)?$/\<close> and
  \<open>/([^\/\:]+?)(?:\.git)?$/\<close>.
\<close>

definition sshNamePattern :: regex where
  "sshNamePattern =
     cat [Lit '':'', Opt (Group 1 (Seq (Plus not_slash) (Lit ''/''))),
          Group 2 (PlusLazy not_slash), Opt (Lit ''.git'')]"

definition urlNamePattern :: regex where
  "urlNamePattern =
     cat [Lit ''/'', Group 1 (PlusLazy not_slash), Opt (Lit ''.git''), Opt (Lit ''/'')]"

definition pathNamePattern :: regex where
  "pathNamePattern = cat [Group 1 (PlusLazy not_slash_colon), Opt (Lit ''.git'')]"

definition extractRepositoryName :: "string \<Rightarrow> string" where
  "extractRepositoryName u =
     (case (if str_includes u ''@'' \<and> str_includes u '':'' \<and> \<not> str_includes u ''://''
            then match_end sshNamePattern u else None) of
        Some sshMatch \<Rightarrow> capture sshMatch 2
      | None \<Rightarrow>
          (case match_end urlNamePattern u of
             Some m \<Rightarrow> capture m 1
           | None \<Rightarrow>
               (case match_end pathNamePattern u of
                  Some pathMatch \<Rightarrow> capture pathMatch 1
                | None \<Rightarrow> ''repository'')))"

definition createRepository :: "string \<Rightarrow> GitRepository" where
  "createRepository u =
     \<lparr>url = u, name = extractRepositoryName u, normalizedUrl = normalize u\<rparr>"

section \<open>The host environment\<close>

text \<open>
  The file system, the path functions, the home directory and the process spawner
  come from Node.js. They are parameters of the model.
  \<^item> \<open>fs.readdirSync\<close> and \<open>fs.statSync\<close> return \<open>None\<close> where they throw.
  \<^item> \<open>cp.spawn\<close>, for a command, its arguments and its working directory, either
    throws an error at once (\<open>Inl\<close> with its message) or returns a child process
    (\<open>Inr\<close> with the events that the process emits, in order). Node.js reports
    some failures to start a process through the event \<open>error\<close> and throws the
    others, such as a working directory that is a regular file.
\<close>

datatype file_type = RegularFile | Directory | OtherFile

definition isDirectory :: "file_type \<Rightarrow> bool" where
  "isDirectory st \<longleftrightarrow> st = Directory"

text \<open>
  The events of a child process: data on its standard output and standard error,
  \<open>close\<close> with the exit code (\<open>None\<close> is \<open>null\<close>: ended by a signal), and \<open>error\<close>
  with the message of the error.
\<close>

datatype process_event =
    StdoutData string
  | StderrData string
  | Close "int option"
  | Error string

record host =
  fs_readdirSync :: "string \<Rightarrow> string list option"
  fs_statSync :: "string \<Rightarrow> file_type option"
  fs_existsSync :: "string \<Rightarrow> bool"
  path_join :: "string \<Rightarrow> string \<Rightarrow> string"
  path_basename :: "string \<Rightarrow> string"
  path_dirname :: "string \<Rightarrow> string"
  os_homedir :: string
  cp_spawn :: "string \<Rightarrow> string list \<Rightarrow> string \<Rightarrow> string + process_event list"

section \<open>ProjectFileDetector\<close>

text \<open>The two loops of \<open>detect\<close>; \<open>acc\<close> is the array \<open>detectedFiles\<close>, named
  \<open>found\<close> in \<open>detect\<close>; \<open>tp\<close> stands for a variable \<open>targetPath\<close> throughout.\<close>

fun checkFiles :: "string list \<Rightarrow> string list \<Rightarrow> string list \<Rightarrow> string list" where
  "checkFiles items [] acc = acc"
| "checkFiles items (file # files) acc =
     checkFiles items files (if file \<in> set items then acc @ [file] else acc)"

fun checkDirectories ::
  "host \<Rightarrow> string \<Rightarrow> string list \<Rightarrow> string list \<Rightarrow> string list \<Rightarrow> string list" where
  "checkDirectories h workspacePath items [] acc = acc"
| "checkDirectories h workspacePath items (dir # dirs) acc =
     checkDirectories h workspacePath items dirs
       (if dir \<in> set items
        then (case fs_statSync h (path_join h workspacePath dir) of
                Some st \<Rightarrow> if isDirectory st then acc @ [dir @ ''/''] else acc
              | None \<Rightarrow> acc)
        else acc)"

definition detect :: "host \<Rightarrow> string \<Rightarrow> ProjectFileDetectionResult" where
  "detect h workspacePath =
     (case fs_readdirSync h workspacePath of
        Some items \<Rightarrow>
          (let found = checkFiles items COMMON_FILES [];
               found = checkDirectories h workspacePath items COMMON_DIRECTORIES found
           in \<lparr>hasCommonFiles = length found > 0, detectedFiles = found\<rparr>)
      | None \<Rightarrow> \<lparr>hasCommonFiles = True, detectedFiles = []\<rparr>)"

section \<open>CloneLocationResolver\<close>

text \<open>A counter in a template literal is written in decimal.\<close>

definition digit :: "nat \<Rightarrow> char" where
  "digit d = ''0123456789'' ! d"

fun decimal :: "nat \<Rightarrow> string" where
  "decimal n = (if n < 10 then [digit n] else decimal (n div 10) @ [digit (n mod 10)])"

declare decimal.simps [simp del]

definition resolveForNoWorkspace :: "host \<Rightarrow> GitRepository \<Rightarrow> CloneLocation" where
  "resolveForNoWorkspace h repository =
     \<lparr>targetPath = path_join h (os_homedir h) (name repository),
      cloneToRoot = False,
      message = ''Clone '' @ name repository @ '' to new folder in home directory?''\<rparr>"

text \<open>
  The loop of \<open>resolveForExistingProject\<close> runs while the target path exists;
  \<open>None\<close> is a loop that does not end. The counter is a JavaScript number, which
  counts exactly far beyond the number of entries of any directory.
\<close>

partial_function (option) findTargetPath ::
  "host \<Rightarrow> GitRepository \<Rightarrow> string \<Rightarrow> string \<Rightarrow> nat \<Rightarrow> string option" where
  "findTargetPath h repository workspacePath tp counter =
     (if fs_existsSync h tp
      then findTargetPath h repository workspacePath
             (path_join h workspacePath (name repository @ ''-'' @ decimal counter))
             (counter + 1)
      else Some tp)"

definition resolveForExistingProject ::
  "host \<Rightarrow> GitRepository \<Rightarrow> string \<Rightarrow> CloneLocation option" where
  "resolveForExistingProject h repository workspacePath =
     map_option
       (\<lambda>tp.
          \<lparr>targetPath = tp,
           cloneToRoot = False,
           message = ''Cloning '' @ name repository @ '' to new folder (avoiding conflicts)''\<rparr>)
       (findTargetPath h repository workspacePath
          (path_join h workspacePath (name repository)) 1)"

definition resolveForCleanWorkspace :: "GitRepository \<Rightarrow> string \<Rightarrow> CloneLocation" where
  "resolveForCleanWorkspace repository workspacePath =
     \<lparr>targetPath = workspacePath,
      cloneToRoot = True,
      message = ''Clone '' @ name repository
        @ '' contents to current workspace root? (No project files detected)''\<rparr>"

text \<open>
  \<open>workspaceFolders\<close> is the list of the folders' paths, or \<open>None\<close> for
  \<open>undefined\<close>.
\<close>

definition resolve :: "host \<Rightarrow> GitRepository \<Rightarrow> string list option \<Rightarrow> CloneLocation option" where
  "resolve h repository workspaceFolders =
     (case workspaceFolders of
        None \<Rightarrow> Some (resolveForNoWorkspace h repository)
      | Some [] \<Rightarrow> Some (resolveForNoWorkspace h repository)
      | Some (workspacePath # _) \<Rightarrow>
          (let detection = detect h workspacePath in
           if hasCommonFiles detection
           then resolveForExistingProject h repository workspacePath
           else Some (resolveForCleanWorkspace repository workspacePath)))"

section \<open>GitCloneService\<close>

definition prepareGitCommand ::
  "host \<Rightarrow> GitRepository \<Rightarrow> CloneLocation \<Rightarrow> string \<Rightarrow> string list \<times> string" where
  "prepareGitCommand h repository location tp =
     (if cloneToRoot location \<and> tp = targetPath location
      then ([''clone'', normalizedUrl repository, ''.''], tp)
      else ([''clone'', normalizedUrl repository, path_basename h tp], path_dirname h tp))"

definition createSuccessResult :: "GitRepository \<Rightarrow> CloneLocation \<Rightarrow> string \<Rightarrow> CloneResult" where
  "createSuccessResult repository location tp =
     \<lparr>success = True,
      resultMessage =
        (if cloneToRoot location
         then ''Successfully cloned '' @ name repository
                @ '' to workspace root (no conflicts detected)''
         else ''Successfully cloned '' @ name repository @ '' to new folder''),
      resultTargetPath = Some tp\<rparr>"

text \<open>
  The state of a running \<open>clone\<close>: the text collected from standard error, and
  the value of the promise once it is resolved. A promise keeps the value of its
  first resolution.
\<close>

record clone_state =
  errorOutput :: string
  resolved :: "CloneResult option"

definition resolve_promise :: "CloneResult \<Rightarrow> clone_state \<Rightarrow> clone_state" where
  "resolve_promise r st = (case resolved st of None \<Rightarrow> st\<lparr>resolved := Some r\<rparr> | Some _ \<Rightarrow> st)"

fun on_event ::
  "GitRepository \<Rightarrow> CloneLocation \<Rightarrow> string \<Rightarrow> process_event \<Rightarrow> clone_state \<Rightarrow> clone_state" where
  "on_event repository location tp (StdoutData d) st = st"
| "on_event repository location tp (StderrData d) st = st\<lparr>errorOutput := errorOutput st @ d\<rparr>"
| "on_event repository location tp (Close code) st =
     (if code = Some 0
      then resolve_promise (createSuccessResult repository location tp) st
      else resolve_promise
             \<lparr>success = False,
              resultMessage = ''Failed to clone repository: ''
                @ (if errorOutput st \<noteq> [] then errorOutput st else ''Unknown error''),
              resultTargetPath = None\<rparr> st)"
| "on_event repository location tp (Error msg) st =
     resolve_promise
       \<lparr>success = False,
        resultMessage = ''Failed to start git process: '' @ msg,
        resultTargetPath = None\<rparr> st"

text \<open>
  \<open>clone\<close> gives the state in which its promise ends. The executor of the promise
  calls \<open>cp.spawn\<close> outside any \<open>try\<close> block, so an error thrown by \<open>cp.spawn\<close>
  rejects the promise; the listeners only ever resolve it.
\<close>

datatype 'a promise = Pending | Resolved 'a | Rejected string

definition clone ::
  "host \<Rightarrow> GitRepository \<Rightarrow> CloneLocation \<Rightarrow> string \<Rightarrow> CloneResult promise" where
  "clone h repository location tp =
     (let (gitArgs, workingDir) = prepareGitCommand h repository location tp
      in case cp_spawn h ''git'' gitArgs workingDir of
           Inl err \<Rightarrow> Rejected err
         | Inr gitProcess \<Rightarrow>
             (case resolved (foldl (\<lambda>st e. on_event repository location tp e st)
                               \<lparr>errorOutput = [], resolved = None\<rparr> gitProcess) of
                Some result \<Rightarrow> Resolved result
              | None \<Rightarrow> Pending))"

section \<open>ClipboardMonitor\<close>

text \<open>
  The monitor is built from two callbacks. A callback changes the state of its
  owner, of type \<open>'s\<close>, and returns normally, as the two callbacks of the extension
  do; the \<open>catch\<close> block then handles a read of the clipboard that fails. One
  tick reads the clipboard: \<open>None\<close> is a read that fails.
\<close>

definition checkClipboard ::
  "(GitRepository \<Rightarrow> 's \<Rightarrow> 's) \<Rightarrow> ('s \<Rightarrow> 's) \<Rightarrow> string option \<Rightarrow> 's \<Rightarrow> 's" where
  "checkClipboard onRepositoryDetected onNoRepository clipboard st =
     (case clipboard of
        Some clipboardText \<Rightarrow>
          if clipboardText \<noteq> [] \<and> isValid clipboardText
          then onRepositoryDetected (createRepository clipboardText) st
          else onNoRepository st
      | None \<Rightarrow> onNoRepository st)"

text \<open>The ticks of a running monitor, one clipboard reading each.\<close>

definition ticks ::
  "(GitRepository \<Rightarrow> 's \<Rightarrow> 's) \<Rightarrow> ('s \<Rightarrow> 's) \<Rightarrow> string option list \<Rightarrow> 's \<Rightarrow> 's" where
  "ticks onRepositoryDetected onNoRepository clipboards st =
     foldl (\<lambda>st clipboard. checkClipboard onRepositoryDetected onNoRepository clipboard st)
       st clipboards"

text \<open>Callbacks that write down each notification they receive.\<close>

datatype notification = Detected GitRepository | NoRepo

definition record_detected :: "GitRepository \<Rightarrow> notification list \<Rightarrow> notification list" where
  "record_detected repository log = log @ [Detected repository]"

definition record_none :: "notification list \<Rightarrow> notification list" where
  "record_none log = log @ [NoRepo]"

section \<open>GitCloneExtension\<close>

text \<open>
  The callbacks that the extension gives to its monitor. The state is the current
  repository and the status bar item.
\<close>

record extension_state =
  currentRepository :: "GitRepository option"
  statusBarText :: string
  statusBarTooltip :: string
  statusBarVisible :: bool

definition onRepositoryDetected :: "GitRepository \<Rightarrow> extension_state \<Rightarrow> extension_state" where
  "onRepositoryDetected repository st =
     st\<lparr>currentRepository := Some repository,
        statusBarText := ''$(repo-clone) Clone: '' @ name repository,
        statusBarTooltip := ''Click to clone: '' @ url repository,
        statusBarVisible := True\<rparr>"

definition onNoRepository :: "extension_state \<Rightarrow> extension_state" where
  "onNoRepository st = st\<lparr>currentRepository := None, statusBarVisible := False\<rparr>"

section \<open>Notions used in the statements\<close>

text \<open>The language of a regular expression: the texts that it matches in full.\<close>

fun lang :: "regex \<Rightarrow> string set" where
  "lang (Lit l) = {l}"
| "lang (Plus c) = {p. p \<noteq> [] \<and> (\<forall>x\<in>set p. c x)}"
| "lang (PlusLazy c) = {p. p \<noteq> [] \<and> (\<forall>x\<in>set p. c x)}"
| "lang (Opt r) = insert [] (lang r)"
| "lang (Seq r1 r2) = {p @ q | p q. p \<in> lang r1 \<and> q \<in> lang r2}"
| "lang (Group n r) = lang r"

text \<open>
  What \<open>cp.spawn\<close> does for \<open>clone\<close> (it throws, or gives the events that
  \<open>clone\<close> receives), the data events, and the text that a list of events writes
  to standard error.
\<close>

definition git_events ::
  "host \<Rightarrow> GitRepository \<Rightarrow> CloneLocation \<Rightarrow> string \<Rightarrow> string + process_event list" where
  "git_events h repository location tp =
     (case prepareGitCommand h repository location tp of
        (gitArgs, workingDir) \<Rightarrow> cp_spawn h ''git'' gitArgs workingDir)"

definition is_data :: "process_event \<Rightarrow> bool" where
  "is_data e = (case e of StdoutData _ \<Rightarrow> True | StderrData _ \<Rightarrow> True | _ \<Rightarrow> False)"

fun stderr_text :: "process_event list \<Rightarrow> string" where
  "stderr_text [] = []"
| "stderr_text (StderrData d # es) = d @ stderr_text es"
| "stderr_text (_ # es) = stderr_text es"

definition run_events ::
  "GitRepository \<Rightarrow> CloneLocation \<Rightarrow> string \<Rightarrow> process_event list \<Rightarrow> clone_state \<Rightarrow> clone_state" where
  "run_events r l tp es st = foldl (\<lambda>st e. on_event r l tp e st) st es"

text \<open>
  A small host for the examples: one workspace \<open>/ws\<close> with the given entries (or
  unreadable), the given existing paths, and a \<open>git\<close> that emits the given events;
  \<open>cp.spawn\<close> throws when the working directory is a regular file.
\<close>

definition example_host ::
  "(string \<times> file_type) list option \<Rightarrow> string list \<Rightarrow> process_event list \<Rightarrow> host" where
  "example_host entries existing events =
     \<lparr>fs_readdirSync = (\<lambda>p. if p = ''/ws'' then map_option (map fst) entries else None),
      fs_statSync = (\<lambda>p. case entries of
                           None \<Rightarrow> None
                         | Some es \<Rightarrow> map_of (map (\<lambda>(n, t). (''/ws/'' @ n, t)) es) p),
      fs_existsSync = (\<lambda>p. p \<in> set existing),
      path_join = (\<lambda>a b. a @ ''/'' @ b),
      path_basename = (\<lambda>p. rev (takeWhile (\<lambda>c. c \<noteq> CHR ''/'') (rev p))),
      path_dirname = (\<lambda>p. rev (drop 1 (dropWhile (\<lambda>c. c \<noteq> CHR ''/'') (rev p)))),
      os_homedir = ''/home/user'',
      cp_spawn = (\<lambda>command args cwd.
                    if (case entries of
                          None \<Rightarrow> None
                        | Some es \<Rightarrow> map_of (map (\<lambda>(n, t). (''/ws/'' @ n, t)) es) cwd)
                       = Some RegularFile
                    then Inl ''spawn ENOTDIR''
                    else Inr events)\<rparr>"

definition example_repository :: GitRepository where
  "example_repository = createRepository ''https://github.com/a/b''"

text \<open>A clipboard reading is recognized when it gives a text that is not empty and valid.\<close>

definition recognized :: "string option \<Rightarrow> bool" where
  "recognized clipboard = (case clipboard of Some t \<Rightarrow> t \<noteq> [] \<and> isValid t | None \<Rightarrow> False)"

text \<open>
  Notions for the statements about \<open>normalize\<close>: a text that ends in white space
  or in a slash, a text that starts like an HTTP or HTTPS URL, and a name made of
  word characters, dots and hyphens.
\<close>

definition ends_in_space_or_slash :: "string \<Rightarrow> bool" where
  "ends_in_space_or_slash s \<longleftrightarrow> s \<noteq> [] \<and> (is_space (last s) \<or> last s = CHR ''/'')"

definition is_http :: "string \<Rightarrow> bool" where
  "is_http s \<longleftrightarrow> startsWith s ''http://'' \<or> startsWith s ''https://''"

definition name_text :: "string \<Rightarrow> bool" where
  "name_text s \<longleftrightarrow> s \<noteq> [] \<and> (\<forall>c\<in>set s. wdd c)"

text \<open>
  A URL with exactly two path segments after its host: \<open>http(s)://host/a/b\<close>,
  where the host and the segments are names.
\<close>

definition two_segment_url :: "string \<Rightarrow> bool" where
  "two_segment_url u \<longleftrightarrow>
     (\<exists>host a b. name_text host \<and> name_text a \<and> name_text b
        \<and> (u = ''http://'' @ host @ ''/'' @ a @ ''/'' @ b
           \<or> u = ''https://'' @ host @ ''/'' @ a @ ''/'' @ b))"

text \<open>
  The capturing groups of a pattern with their bodies, and the groups that take part
  in every match: those that are not inside an optional part.
\<close>

fun groups :: "regex \<Rightarrow> (nat \<times> regex) list" where
  "groups (Group n r) = (n, r) # groups r"
| "groups (Seq r1 r2) = groups r1 @ groups r2"
| "groups (Opt r) = groups r"
| "groups r = []"

fun mandatory :: "regex \<Rightarrow> nat set" where
  "mandatory (Group n r) = insert n (mandatory r)"
| "mandatory (Seq r1 r2) = mandatory r1 \<union> mandatory r2"
| "mandatory r = {}"

text \<open>
  A bare host: a text that is not empty and has no slash. The name that the source
  derives from a last segment: the segment without a final \<open>.git\<close>, unless the
  segment is \<open>.git\<close> itself or shorter.
\<close>

definition bare_host :: "string \<Rightarrow> bool" where
  "bare_host h \<longleftrightarrow> h \<noteq> [] \<and> CHR ''/'' \<notin> set h"

definition without_git_suffix :: "string \<Rightarrow> string" where
  "without_git_suffix h =
     (if endsWith h ''.git'' \<and> 4 < length h then take (length h - 4) h else h)"

text \<open>
  The \<open>k\<close>-th candidate for the target path: \<open>{root}/{name}\<close> for \<open>k = 0\<close> and
  \<open>{root}/{name}-k\<close> for \<open>k \<ge> 1\<close>.
\<close>

definition candidate :: "host \<Rightarrow> string \<Rightarrow> string \<Rightarrow> nat \<Rightarrow> string" where
  "candidate h root nm k =
     (if k = 0 then path_join h root nm else path_join h root (nm @ ''-'' @ decimal k))"

section \<open>The matcher and the language of a pattern\<close>

lemma startsWith_iff: "startsWith s p \<longleftrightarrow> (\<exists>t. s = p @ t)"
  unfolding startsWith_def
  by (metis append_eq_conv_conj append_take_drop_id)

lemma takeWhile_prefix_all:
  "(\<forall>x\<in>set p. c x) \<Longrightarrow> length p \<le> length (takeWhile c (p @ t))"
  by (induction p) auto

lemma take_takeWhile_all:
  "k \<le> length (takeWhile c s) \<Longrightarrow> \<forall>x\<in>set (take k s). c x"
proof (induction s arbitrary: k)
  case Nil
  then show ?case by simp
next
  case (Cons a s)
  then show ?case by (cases k) (auto split: if_splits)
qed

lemma plus_rests:
  "(\<lambda>k. drop k s) ` {1 .. length (takeWhile c s)}
     = {t. \<exists>p. p \<noteq> [] \<and> (\<forall>x\<in>set p. c x) \<and> s = p @ t}"
proof (intro set_eqI iffI)
  fix t assume "t \<in> (\<lambda>k. drop k s) ` {1 .. length (takeWhile c s)}"
  then obtain k where k: "1 \<le> k" "k \<le> length (takeWhile c s)" "t = drop k s" by auto
  have "k \<le> length s" using k(2) length_takeWhile_le[of c s] by linarith
  then have "take k s \<noteq> []" using k(1) by auto
  moreover have "\<forall>x\<in>set (take k s). c x" using k(2) by (rule take_takeWhile_all)
  moreover have "s = take k s @ t" using k(3) by simp
  ultimately show "t \<in> {t. \<exists>p. p \<noteq> [] \<and> (\<forall>x\<in>set p. c x) \<and> s = p @ t}" by blast
next
  fix t assume "t \<in> {t. \<exists>p. p \<noteq> [] \<and> (\<forall>x\<in>set p. c x) \<and> s = p @ t}"
  then obtain p where p: "p \<noteq> []" "\<forall>x\<in>set p. c x" "s = p @ t" by blast
  have "length p \<le> length (takeWhile c s)" using p(2,3) takeWhile_prefix_all by blast
  moreover have "1 \<le> length p" using p(1) by (cases p) auto
  moreover have "t = drop (length p) s" using p(3) by simp
  ultimately show "t \<in> (\<lambda>k. drop k s) ` {1 .. length (takeWhile c s)}" by auto
qed

lemma rests_Lit: "snd ` set (run (Lit l) s) = {t. \<exists>p\<in>lang (Lit l). s = p @ t}"
  by (auto simp: startsWith_iff)

lemma rests_Plus: "snd ` set (run (Plus c) s) = {t. \<exists>p\<in>lang (Plus c). s = p @ t}"
proof -
  have "snd ` set (run (Plus c) s) = (\<lambda>k. drop k s) ` {1 .. length (takeWhile c s)}"
    by (simp add: image_image atLeastLessThanSuc_atLeastAtMost del: upt_Suc)
  then show ?thesis using plus_rests[of s c] by simp
qed

lemma rests_PlusLazy:
  "snd ` set (run (PlusLazy c) s) = {t. \<exists>p\<in>lang (PlusLazy c). s = p @ t}"
proof -
  have "snd ` set (run (PlusLazy c) s) = (\<lambda>k. drop k s) ` {1 .. length (takeWhile c s)}"
    by (simp add: image_image atLeastLessThanSuc_atLeastAtMost del: upt_Suc)
  then show ?thesis using plus_rests[of s c] by simp
qed

lemma rests_Opt: "snd ` set (run (Opt r) s) = insert s (snd ` set (run r s))"
  by simp

lemma rests_Seq:
  "snd ` set (run (Seq r1 r2) s) = (\<Union>s1 \<in> snd ` set (run r1 s). snd ` set (run r2 s1))"
proof -
  have "snd ` set (run (Seq r1 r2) s)
        = (\<Union>m \<in> set (run r1 s). snd ` (\<lambda>m2. (fst m @ fst m2, snd m2)) ` set (run r2 (snd m)))"
    by (simp add: case_prod_unfold image_UN)
  also have "\<dots> = (\<Union>m \<in> set (run r1 s). snd ` set (run r2 (snd m)))"
    by (simp add: image_image)
  also have "\<dots> = (\<Union>s1 \<in> snd ` set (run r1 s). snd ` set (run r2 s1))"
    by simp
  finally show ?thesis .
qed

lemma rests_Group: "snd ` set (run (Group n r) s) = snd ` set (run r s)"
  by (simp add: image_image case_prod_unfold)

text \<open>The rests of the input that \<open>run\<close> lists are those after a text of the language.\<close>

lemma run_rests: "snd ` set (run r s) = {t. \<exists>p\<in>lang r. s = p @ t}"
proof (induction r arbitrary: s)
  case (Lit l)
  show ?case by (rule rests_Lit)
next
  case (Plus c)
  show ?case by (rule rests_Plus)
next
  case (PlusLazy c)
  show ?case by (rule rests_PlusLazy)
next
  case (Opt r)
  have "snd ` set (run (Opt r) s) = insert s {t. \<exists>p\<in>lang r. s = p @ t}"
    by (simp only: rests_Opt Opt.IH)
  also have "\<dots> = {t. \<exists>p\<in>lang (Opt r). s = p @ t}"
    by auto
  finally show ?case .
next
  case (Seq r1 r2)
  have "snd ` set (run (Seq r1 r2) s)
        = (\<Union>s1 \<in> {t. \<exists>p\<in>lang r1. s = p @ t}. {t. \<exists>q\<in>lang r2. s1 = q @ t})"
    by (simp only: rests_Seq Seq.IH)
  also have "\<dots> = {t. \<exists>p\<in>lang (Seq r1 r2). s = p @ t}"
  proof (intro set_eqI iffI)
    fix t
    assume "t \<in> (\<Union>s1 \<in> {t. \<exists>p\<in>lang r1. s = p @ t}. {t. \<exists>q\<in>lang r2. s1 = q @ t})"
    then obtain p q where "p \<in> lang r1" "q \<in> lang r2" "s = p @ q @ t" by blast
    then have "p @ q \<in> lang (Seq r1 r2)" "s = (p @ q) @ t" by auto
    then show "t \<in> {t. \<exists>p\<in>lang (Seq r1 r2). s = p @ t}" by blast
  next
    fix t assume "t \<in> {t. \<exists>p\<in>lang (Seq r1 r2). s = p @ t}"
    then obtain p q where "p \<in> lang r1" "q \<in> lang r2" "s = p @ (q @ t)" by auto
    then show "t \<in> (\<Union>s1 \<in> {t. \<exists>p\<in>lang r1. s = p @ t}. {t. \<exists>q\<in>lang r2. s1 = q @ t})"
      by blast
  qed
  finally show ?case .
next
  case (Group n r)
  show ?case by (simp only: rests_Group Group.IH lang.simps)
qed

lemma first_full_None: "first_full ms = None \<longleftrightarrow> [] \<notin> snd ` set ms"
  by (induction ms rule: first_full.induct) auto

lemma test_lang: "test r s \<longleftrightarrow> s \<in> lang r"
  unfolding test_def first_full_None run_rests by simp

section \<open>Workspace inspection fails safe\<close>

text \<open>
  Claim C4. When listing the directory fails, \<open>detect\<close> returns a result (it does
  not throw): \<open>hasCommonFiles\<close> is true and the list of detected files is empty.
\<close>

theorem detect_read_failure:
  "fs_readdirSync h p = None \<Longrightarrow>
     detect h p = \<lparr>hasCommonFiles = True, detectedFiles = []\<rparr>"
  by (simp add: detect_def)

theorem detect_read_failure_witness:
  "fs_readdirSync (example_host None [] []) ''/ws'' = None
   \<and> detect (example_host None [] []) ''/ws'' = \<lparr>hasCommonFiles = True, detectedFiles = []\<rparr>"
proof -
  have h: "fs_readdirSync (example_host None [] []) ''/ws'' = None"
    by (simp add: example_host_def)
  show ?thesis using h detect_read_failure [OF h] by simp
qed

section \<open>Failures of the clone\<close>

lemma clone_events:
  "clone h r l tp =
     (case git_events h r l tp of
        Inl err \<Rightarrow> Rejected err
      | Inr es \<Rightarrow>
          (case resolved (run_events r l tp es \<lparr>errorOutput = [], resolved = None\<rparr>) of
             Some result \<Rightarrow> Resolved result
           | None \<Rightarrow> Pending))"
  by (simp add: clone_def git_events_def run_events_def split: prod.splits sum.splits)

lemma run_events_data:
  "\<forall>e\<in>set ds. is_data e \<Longrightarrow>
     run_events r l tp ds st = st\<lparr>errorOutput := errorOutput st @ stderr_text ds\<rparr>"
proof (induction ds arbitrary: st)
  case Nil
  then show ?case by (simp add: run_events_def)
next
  case (Cons e ds)
  then show ?case by (cases e) (simp_all add: run_events_def is_data_def)
qed

lemma run_events_resolved:
  "resolved st = Some v \<Longrightarrow> resolved (run_events r l tp es st) = Some v"
proof (induction es arbitrary: st)
  case Nil
  then show ?case by (simp add: run_events_def)
next
  case (Cons e es)
  have "resolved (on_event r l tp e st) = Some v"
    using Cons.prems by (cases e) (simp_all add: resolve_promise_def)
  then show ?case using Cons.IH by (simp add: run_events_def)
qed

lemma run_events_first_end:
  assumes "\<forall>e\<in>set ds. is_data e"
    and "resolved (on_event r l tp e \<lparr>errorOutput = stderr_text ds, resolved = None\<rparr>) = Some v"
  shows "resolved (run_events r l tp (ds @ e # rest) \<lparr>errorOutput = [], resolved = None\<rparr>) = Some v"
proof -
  let ?s0 = "\<lparr>errorOutput = [], resolved = None\<rparr>"
  have 1: "run_events r l tp ds ?s0 = \<lparr>errorOutput = stderr_text ds, resolved = None\<rparr>"
    using assms(1) by (simp add: run_events_data)
  have "run_events r l tp (ds @ e # rest) ?s0
        = run_events r l tp rest (on_event r l tp e (run_events r l tp ds ?s0))"
    by (simp add: run_events_def)
  then show ?thesis using 1 assms(2) by (simp add: run_events_resolved)
qed

text \<open>
  When \<open>cp.spawn\<close> returns a child process: if the first event after the data is
  \<open>close\<close> with an exit code other than 0, the promise is resolved with a failure
  whose message ends with the text collected from standard error, or with
  \<open>Unknown error\<close> when that text is empty; if it is \<open>error\<close>, the promise is resolved
  with a failure with another message, which ends with the message of the error.
\<close>

lemma clone_failure:
  "(git_events h r l tp = Inr (ds @ Close code # rest) \<and> (\<forall>e\<in>set ds. is_data e)
      \<and> code \<noteq> Some 0 \<longrightarrow>
      clone h r l tp =
        Resolved \<lparr>success = False,
                  resultMessage = ''Failed to clone repository: ''
                    @ (if stderr_text ds = [] then ''Unknown error'' else stderr_text ds),
                  resultTargetPath = None\<rparr>)
   \<and> (git_events h r l tp = Inr (ds @ Error msg # rest) \<and> (\<forall>e\<in>set ds. is_data e) \<longrightarrow>
      clone h r l tp =
        Resolved \<lparr>success = False,
                  resultMessage = ''Failed to start git process: '' @ msg,
                  resultTargetPath = None\<rparr>)"
proof (intro conjI impI)
  assume a: "git_events h r l tp = Inr (ds @ Close code # rest) \<and> (\<forall>e\<in>set ds. is_data e)
             \<and> code \<noteq> Some 0"
  let ?res = "\<lparr>success = False,
         resultMessage = ''Failed to clone repository: ''
           @ (if stderr_text ds = [] then ''Unknown error'' else stderr_text ds),
         resultTargetPath = None\<rparr>"
  have "resolved (on_event r l tp (Close code) \<lparr>errorOutput = stderr_text ds, resolved = None\<rparr>)
        = Some ?res"
    using a by (simp add: resolve_promise_def)
  then have "resolved (run_events r l tp (ds @ Close code # rest)
                \<lparr>errorOutput = [], resolved = None\<rparr>) = Some ?res"
    using a run_events_first_end by blast
  then show "clone h r l tp = Resolved ?res" using a by (simp add: clone_events)
next
  assume a: "git_events h r l tp = Inr (ds @ Error msg # rest) \<and> (\<forall>e\<in>set ds. is_data e)"
  let ?res = "\<lparr>success = False,
         resultMessage = ''Failed to start git process: '' @ msg,
         resultTargetPath = None\<rparr>"
  have "resolved (on_event r l tp (Error msg) \<lparr>errorOutput = stderr_text ds, resolved = None\<rparr>)
        = Some ?res"
    by (simp add: resolve_promise_def)
  then have "resolved (run_events r l tp (ds @ Error msg # rest)
                \<lparr>errorOutput = [], resolved = None\<rparr>) = Some ?res"
    using a run_events_first_end by blast
  then show "clone h r l tp = Resolved ?res" using a by (simp add: clone_events)
qed

lemma clone_failure_examples:
  "clone (example_host None []
            [StdoutData ''Cloning'', StderrData ''fatal: '', StderrData ''repository not found'',
             Close (Some 128)])
         example_repository \<lparr>targetPath = ''/ws/b'', cloneToRoot = False, message = []\<rparr> ''/ws/b''
     = Resolved \<lparr>success = False,
                 resultMessage = ''Failed to clone repository: fatal: repository not found'',
                 resultTargetPath = None\<rparr>
   \<and> clone (example_host None [] [Close None])
         example_repository \<lparr>targetPath = ''/ws/b'', cloneToRoot = False, message = []\<rparr> ''/ws/b''
     = Resolved \<lparr>success = False,
                 resultMessage = ''Failed to clone repository: Unknown error'',
                 resultTargetPath = None\<rparr>
   \<and> clone (example_host None [] [Error ''spawn git ENOENT'', Close (Some (- 2))])
         example_repository \<lparr>targetPath = ''/ws/b'', cloneToRoot = False, message = []\<rparr> ''/ws/b''
     = Resolved \<lparr>success = False,
                 resultMessage = ''Failed to start git process: spawn git ENOENT'',
                 resultTargetPath = None\<rparr>"
proof -
  let ?l = "\<lparr>targetPath = ''/ws/b'', cloneToRoot = False, message = []\<rparr>"
  let ?ds = "[StdoutData ''Cloning'', StderrData ''fatal: '', StderrData ''repository not found'']"
  have 1: "git_events (example_host None [] (?ds @ [Close (Some 128)])) example_repository ?l ''/ws/b''
             = Inr (?ds @ Close (Some 128) # [])"
    by (simp add: git_events_def prepareGitCommand_def example_host_def)
  have 2: "git_events (example_host None [] [Close None]) example_repository ?l ''/ws/b''
             = Inr ([] @ Close None # [])"
    by (simp add: git_events_def prepareGitCommand_def example_host_def)
  have 3: "git_events (example_host None [] [Error ''spawn git ENOENT'', Close (Some (- 2))])
             example_repository ?l ''/ws/b''
             = Inr ([] @ Error ''spawn git ENOENT'' # [Close (Some (- 2))])"
    by (simp add: git_events_def prepareGitCommand_def example_host_def)
  have d: "\<forall>e\<in>set ?ds. is_data e" by (simp add: is_data_def)
  show ?thesis
    using clone_failure [of "example_host None [] (?ds @ [Close (Some 128)])" example_repository ?l
                            "''/ws/b''" ?ds "Some 128" "[]"]
          clone_failure [of "example_host None [] [Close None]" example_repository ?l
                            "''/ws/b''" "[]" None "[]"]
          clone_failure [of "example_host None [] [Error ''spawn git ENOENT'', Close (Some (- 2))]"
                            example_repository ?l "''/ws/b''" "[]" _ "[Close (Some (- 2))]"
                            "''spawn git ENOENT''"]
          1 2 3 d
    by simp
qed

lemma clone_spawn_throws: "git_events h r l tp = Inl err \<Longrightarrow> clone h r l tp = Rejected err"
  by (simp add: clone_events)

text \<open>
  Claim C5. The claim asks that \<open>clone\<close> never throws and reports every failure,
  also a failure to start the process, as an outcome with \<open>success\<close> false. The
  listeners for \<open>close\<close> and \<open>error\<close> do so (lemma \<open>clone_failure\<close>), but nothing
  handles an error that \<open>cp.spawn\<close> throws. For a confirmed target path
  \<open>/ws/package.json/b\<close>, where \<open>/ws/package.json\<close> is a regular file, \<open>git\<close> is to run
  in the working directory \<open>/ws/package.json\<close>; \<open>cp.spawn\<close> throws, and the promise
  of \<open>clone\<close> is rejected with that error: there is no outcome.
\<close>

theorem clone_rejected_when_spawn_throws:
  "prepareGitCommand (example_host (Some [(''package.json'', RegularFile)]) [] [])
      example_repository \<lparr>targetPath = ''/ws/b'', cloneToRoot = False, message = []\<rparr>
      ''/ws/package.json/b''
     = ([''clone'', ''https://github.com/a/b.git'', ''b''], ''/ws/package.json'')
   \<and> fs_statSync (example_host (Some [(''package.json'', RegularFile)]) [] []) ''/ws/package.json''
     = Some RegularFile
   \<and> clone (example_host (Some [(''package.json'', RegularFile)]) [] [])
         example_repository \<lparr>targetPath = ''/ws/b'', cloneToRoot = False, message = []\<rparr>
         ''/ws/package.json/b''
     = Rejected ''spawn ENOTDIR''"
  by code_simp

section \<open>The clipboard monitor\<close>

lemma isValid_nonempty: "isValid t \<Longrightarrow> t \<noteq> []"
  by (auto simp: isValid_def trim_def)

lemma ticks_Nil: "ticks f g [] st = st"
  by (simp add: ticks_def)

lemma ticks_Cons:
  "ticks f g (c # cs) st = ticks f g cs (checkClipboard f g c st)"
  by (simp add: ticks_def)

text \<open>
  Claim C6. The readings \<open>https://github.com/a/b\<close>, \<open>garbage\<close>,
  \<open>https://github.com/a/b\<close> give the notifications detected (\<open>b\<close>), no repository,
  detected (\<open>b\<close>). On every tick whose text is valid, the monitor calls the
  first callback with the repository made from that text, also when the text is the
  same as at the tick before: \<open>n\<close> readings of one valid text give \<open>n\<close> notifications.
\<close>

theorem watcher_notifications:
  "ticks record_detected record_none
      [Some ''https://github.com/a/b'', Some ''garbage'', Some ''https://github.com/a/b''] []
     = [Detected \<lparr>url = ''https://github.com/a/b'', name = ''b'',
                  normalizedUrl = ''https://github.com/a/b.git''\<rparr>,
        NoRepo,
        Detected \<lparr>url = ''https://github.com/a/b'', name = ''b'',
                  normalizedUrl = ''https://github.com/a/b.git''\<rparr>]
   \<and> (isValid t \<longrightarrow> checkClipboard f g (Some t) st = f (createRepository t) st)
   \<and> (isValid t \<longrightarrow>
          ticks record_detected record_none (replicate n (Some t)) log
            = log @ replicate n (Detected (createRepository t)))"
proof (intro conjI impI)
  have v: "isValid ''https://github.com/a/b''" by code_simp
  have g: "\<not> isValid ''garbage''" by code_simp
  have r: "createRepository ''https://github.com/a/b''
           = \<lparr>url = ''https://github.com/a/b'', name = ''b'',
                  normalizedUrl = ''https://github.com/a/b.git''\<rparr>" by code_simp
  show "ticks record_detected record_none
      [Some ''https://github.com/a/b'', Some ''garbage'', Some ''https://github.com/a/b''] []
     = [Detected \<lparr>url = ''https://github.com/a/b'', name = ''b'',
                  normalizedUrl = ''https://github.com/a/b.git''\<rparr>,
        NoRepo,
        Detected \<lparr>url = ''https://github.com/a/b'', name = ''b'',
                  normalizedUrl = ''https://github.com/a/b.git''\<rparr>]"
    unfolding ticks_Cons ticks_Nil
    by (simp add: checkClipboard_def v g r record_detected_def record_none_def)
next
  assume "isValid t"
  then show "checkClipboard f g (Some t) st = f (createRepository t) st"
    using isValid_nonempty by (simp add: checkClipboard_def)
next
  assume v: "isValid t"
  show "ticks record_detected record_none (replicate n (Some t)) log
            = log @ replicate n (Detected (createRepository t))"
  proof (induction n arbitrary: log)
    case 0
    show ?case by (simp add: ticks_Nil)
  next
    case (Suc n)
    have "checkClipboard record_detected record_none (Some t) log
          = log @ [Detected (createRepository t)]"
      using v isValid_nonempty by (simp add: checkClipboard_def record_detected_def)
    then show ?case using Suc.IH by (simp add: ticks_Cons replicate_app_Cons_same)
  qed
qed

theorem watcher_notifications_witness:
  "isValid ''https://github.com/a/b''
   \<and> checkClipboard onRepositoryDetected onNoRepository (Some ''https://github.com/a/b'')
        \<lparr>currentRepository = None, statusBarText = [], statusBarTooltip = [],
          statusBarVisible = False\<rparr>
      = \<lparr>currentRepository = Some \<lparr>url = ''https://github.com/a/b'', name = ''b'',
                  normalizedUrl = ''https://github.com/a/b.git''\<rparr>,
         statusBarText = ''$(repo-clone) Clone: b'',
         statusBarTooltip = ''Click to clone: https://github.com/a/b'',
         statusBarVisible = True\<rparr>
   \<and> ticks record_detected record_none (replicate 2 (Some ''https://github.com/a/b'')) [NoRepo]
      = [NoRepo,
         Detected \<lparr>url = ''https://github.com/a/b'', name = ''b'',
                  normalizedUrl = ''https://github.com/a/b.git''\<rparr>,
         Detected \<lparr>url = ''https://github.com/a/b'', name = ''b'',
                  normalizedUrl = ''https://github.com/a/b.git''\<rparr>]"
proof -
  have v: "isValid ''https://github.com/a/b''" by code_simp
  have r: "createRepository ''https://github.com/a/b''
           = \<lparr>url = ''https://github.com/a/b'', name = ''b'',
                  normalizedUrl = ''https://github.com/a/b.git''\<rparr>" by code_simp
  have two: "replicate 2 x = [x, x]" for x :: "'a" by (simp add: numeral_2_eq_2)
  show ?thesis
    using watcher_notifications [of "''https://github.com/a/b''" onRepositoryDetected onNoRepository
            "\<lparr>currentRepository = None, statusBarText = [], statusBarTooltip = [],
              statusBarVisible = False\<rparr>" 2 "[NoRepo]"] v r
    by (simp add: onRepositoryDetected_def two)
qed

text \<open>
  Claim C10. Every tick calls exactly one of the two callbacks: the first one when
  the reading is recognized, the second one otherwise (an empty text, a text that is
  not valid, a read that fails). With the recording callbacks a tick adds one
  notification to the log, and ticks that are not recognized add \<open>NoRepo\<close> each
  time, one after the other.
\<close>

theorem tick_one_callback:
  "checkClipboard record_detected record_none clipboard log
     = log @ [if recognized clipboard then Detected (createRepository (the clipboard)) else NoRepo]
   \<and> checkClipboard f g clipboard st
     = (if recognized clipboard then f (createRepository (the clipboard)) st else g st)
   \<and> ((\<forall>c\<in>set clipboards. \<not> recognized c) \<longrightarrow>
        ticks record_detected record_none clipboards log
          = log @ replicate (length clipboards) NoRepo)"
proof (intro conjI impI)
  show "checkClipboard record_detected record_none clipboard log
     = log @ [if recognized clipboard then Detected (createRepository (the clipboard)) else NoRepo]"
    by (simp add: checkClipboard_def recognized_def record_detected_def record_none_def
        split: option.splits)
  show "checkClipboard f g clipboard st
     = (if recognized clipboard then f (createRepository (the clipboard)) st else g st)"
    by (simp add: checkClipboard_def recognized_def split: option.splits)
  assume "\<forall>c\<in>set clipboards. \<not> recognized c"
  then show "ticks record_detected record_none clipboards log
          = log @ replicate (length clipboards) NoRepo"
  proof (induction clipboards arbitrary: log)
    case Nil
    show ?case by (simp add: ticks_Nil)
  next
    case (Cons c cs)
    have "checkClipboard record_detected record_none c log = log @ [NoRepo]"
      using Cons.prems
      by (auto simp: checkClipboard_def recognized_def record_none_def split: option.splits)
    then show ?case using Cons by (simp add: ticks_Cons replicate_app_Cons_same)
  qed
qed

theorem tick_one_callback_witness:
  "\<not> recognized (Some ''garbage'') \<and> \<not> recognized None \<and> \<not> recognized (Some [])
   \<and> ticks record_detected record_none [Some ''garbage'', None, Some []] [NoRepo]
      = [NoRepo, NoRepo, NoRepo, NoRepo]
   \<and> checkClipboard onRepositoryDetected onNoRepository (Some ''garbage'')
        \<lparr>currentRepository = None, statusBarText = [], statusBarTooltip = [],
          statusBarVisible = False\<rparr>
      = onNoRepository
        \<lparr>currentRepository = None, statusBarText = [], statusBarTooltip = [],
          statusBarVisible = False\<rparr>"
proof -
  have g: "\<not> isValid ''garbage''" by code_simp
  have n: "\<not> recognized (Some ''garbage'')" "\<not> recognized None" "\<not> recognized (Some [])"
    using g by (simp_all add: recognized_def)
  have a: "\<forall>c\<in>set [Some ''garbage'', None, Some []]. \<not> recognized c"
    using n by simp
  show ?thesis
    using n a
      tick_one_callback [of "Some ''garbage''" "[NoRepo]" onRepositoryDetected onNoRepository
        "\<lparr>currentRepository = None, statusBarText = [], statusBarTooltip = [],
          statusBarVisible = False\<rparr>" "[Some ''garbage'', None, Some []]"]
    by simp
qed

section \<open>Trimming\<close>

lemma last_dropWhile_ne: "dropWhile P xs \<noteq> [] \<Longrightarrow> last (dropWhile P xs) = last xs"
proof -
  assume ne: "dropWhile P xs \<noteq> []"
  have "xs = takeWhile P xs @ dropWhile P xs" by simp
  then have "last xs = last (takeWhile P xs @ dropWhile P xs)" by simp
  also have "\<dots> = last (dropWhile P xs)" using ne by (rule last_appendR)
  finally show ?thesis by simp
qed

lemma trim_id_iff: "trim s = s \<longleftrightarrow> s = [] \<or> (\<not> is_space (hd s) \<and> \<not> is_space (last s))"
proof
  assume t: "trim s = s"
  show "s = [] \<or> (\<not> is_space (hd s) \<and> \<not> is_space (last s))"
  proof (cases "s = []")
    case True
    then show ?thesis by simp
  next
    case False
    let ?d = "dropWhile is_space s"
    let ?e = "dropWhile is_space (rev ?d)"
    have "length s = length ?e" using t by (metis length_rev trim_def)
    moreover have "length ?e \<le> length ?d" by (metis length_dropWhile_le length_rev)
    moreover have "length ?d \<le> length s" by (rule length_dropWhile_le)
    ultimately have l: "length ?d = length s" "length ?e = length (rev ?d)" by simp_all
    have d: "?d = s"
      by (metis l(1) takeWhile_dropWhile_id append_eq_conv_conj drop_all order_refl append_self_conv2 length_append add_cancel_left_left length_0_conv)
    have e: "?e = rev ?d"
      by (metis l(2) takeWhile_dropWhile_id append_self_conv2 length_append add_cancel_left_left length_0_conv)
    have "\<not> is_space (hd s)" using d False by (metis hd_dropWhile)
    moreover have "\<not> is_space (hd (rev s))" using e d False
      by (metis hd_dropWhile rev_is_Nil_conv)
    ultimately show ?thesis by (simp add: hd_rev)
  qed
next
  assume a: "s = [] \<or> (\<not> is_space (hd s) \<and> \<not> is_space (last s))"
  then have 1: "dropWhile is_space s = s" by (auto simp: dropWhile_eq_self_iff)
  have 2: "dropWhile is_space (rev s) = rev s" using a by (auto simp: dropWhile_eq_self_iff hd_rev)
  show "trim s = s" by (simp add: trim_def 1 2)
qed

lemma trim_ends:
  assumes "trim s \<noteq> []"
  shows "\<not> is_space (hd (trim s)) \<and> \<not> is_space (last (trim s))"
proof -
  let ?d = "dropWhile is_space s"
  let ?e = "dropWhile is_space (rev ?d)"
  have e: "?e \<noteq> []" using assms by (simp add: trim_def)
  have d: "?d \<noteq> []"
  proof
    assume "?d = []"
    then have "?e = []" by (simp only: rev.simps dropWhile.simps)
    then show False using e by blast
  qed
  have 1: "\<not> is_space (hd ?e)" using e by (rule hd_dropWhile)
  have "last ?e = last (rev ?d)" using e by (rule last_dropWhile_ne)
  then have "last ?e = hd ?d" by (simp add: last_rev)
  then have 2: "\<not> is_space (last ?e)" using d hd_dropWhile by metis
  show ?thesis using 1 2 by (simp add: trim_def hd_rev last_rev)
qed

lemma trim_trim: "trim (trim s) = trim s"
  using trim_ends[of s] by (auto simp: trim_id_iff)

section \<open>Normalizing a URL\<close>

lemma wdd_not_space: "wdd c \<Longrightarrow> \<not> is_space c"
  by (auto simp: wdd_def word_char_def is_space_def)

lemma wdd_not_slash: "wdd c \<Longrightarrow> c \<noteq> CHR ''/''"
  by (auto simp: wdd_def word_char_def)

lemma lang_SeqI: "p \<in> lang r1 \<Longrightarrow> q \<in> lang r2 \<Longrightarrow> p @ q \<in> lang (Seq r1 r2)"
  by auto

lemma lang_PlusI: "name_text p \<Longrightarrow> p \<in> lang (Plus wdd)"
  by (simp add: name_text_def)

lemma isKnownProvider_github:
  assumes "name_text owner" "name_text repo"
  shows "isKnownProvider (''https://github.com/'' @ owner @ ''/'' @ repo)"
proof -
  let ?r = "cat [Lit ''http'', Opt (Lit ''s''), Lit ''://github.com/'', Plus wdd, Lit ''/'', Plus wdd]"
  have o: "owner \<in> lang (Plus wdd)" and r: "repo \<in> lang (Plus wdd)"
    using assms by (simp_all add: name_text_def)
  have l1: "''/'' \<in> lang (Lit ''/'')" and l2: "''://github.com/'' \<in> lang (Lit ''://github.com/'')"
    and l3: "''s'' \<in> lang (Opt (Lit ''s''))" and l4: "''http'' \<in> lang (Lit ''http'')"
    by simp_all
  have "''http'' @ ''s'' @ ''://github.com/'' @ owner @ ''/'' @ repo \<in> lang ?r"
    unfolding cat.simps
    by (rule lang_SeqI[OF l4 lang_SeqI[OF l3 lang_SeqI[OF l2 lang_SeqI[OF o lang_SeqI[OF l1 r]]]]])
  then have "test ?r (''https://github.com/'' @ owner @ ''/'' @ repo)"
    by (simp add: test_lang)
  then show ?thesis by (simp add: isKnownProvider_def knownProviders_def)
qed

lemma normalize_github:
  assumes "name_text owner" "name_text repo"
    and "\<not> endsWith (''https://github.com/'' @ owner @ ''/'' @ repo) ''.git''"
  shows "normalize (''https://github.com/'' @ owner @ ''/'' @ repo)
           = ''https://github.com/'' @ owner @ ''/'' @ repo @ ''.git''"
proof -
  let ?u = "''https://github.com/'' @ owner @ ''/'' @ repo"
  have r: "repo \<noteq> []" "wdd (last repo)" using assms(2) by (simp_all add: name_text_def)
  have l: "last ?u = last repo" using r(1) by simp
  have h: "hd ?u = CHR ''h''" by simp
  have "\<not> is_space (CHR ''h'')" by (simp add: is_space_def)
  then have "trim ?u = ?u"
    unfolding trim_id_iff l h using wdd_not_space[OF r(2)] by blast
  moreover have "stripTrailingSlash ?u = ?u"
    unfolding stripTrailingSlash_def l using wdd_not_slash[OF r(2)] by simp
  moreover have "\<not> startsWith ?u ''git@''" "\<not> startsWith ?u ''ssh://''" "\<not> startsWith ?u ''git://''"
    "startsWith ?u ''https://''"
    by (simp_all add: startsWith_def)
  ultimately show ?thesis
    using assms(3) isKnownProvider_github[OF assms(1,2)]
    by (simp add: normalize_def Let_def)
qed

lemma is_http_cases:
  "is_http s \<longleftrightarrow> (\<exists>r. s = ''http://'' @ r) \<or> (\<exists>r. s = ''https://'' @ r)"
  by (simp only: is_http_def startsWith_iff)

lemma is_http_no_git:
  assumes "is_http s"
  shows "\<not> startsWith s ''git@''" "\<not> startsWith s ''ssh://''" "\<not> startsWith s ''git://''"
    "s \<noteq> []" "hd s = CHR ''h''"
  using assms unfolding is_http_cases by (auto simp: startsWith_def)

lemma is_http_append: "is_http s \<Longrightarrow> is_http (s @ t)"
  unfolding is_http_cases by auto

lemma is_http_butlast:
  assumes "is_http s" "butlast s \<noteq> []" "last (butlast s) \<noteq> CHR ''/''"
  shows "is_http (butlast s)"
proof -
  from assms(1) consider r where "s = ''http://'' @ r" | r where "s = ''https://'' @ r"
    unfolding is_http_cases by blast
  then show ?thesis
  proof cases
    case 1
    have "r \<noteq> []" using assms(3) 1 by auto
    then have "butlast s = ''http://'' @ butlast r" using 1 by (simp add: butlast_append)
    then show ?thesis unfolding is_http_cases by blast
  next
    case 2
    have "r \<noteq> []" using assms(3) 2 by auto
    then have "butlast s = ''https://'' @ butlast r" using 2 by (simp add: butlast_append)
    then show ?thesis unfolding is_http_cases by blast
  qed
qed

lemma normalize_http:
  assumes "is_http (trim x)"
  shows "normalize x =
     (let cleanUrl = stripTrailingSlash (trim x) in
         if endsWith cleanUrl ''.git'' then cleanUrl
         else if isKnownProvider cleanUrl then cleanUrl @ ''.git''
         else if looksLikeRepositoryUrl cleanUrl then cleanUrl @ ''.git''
         else cleanUrl)"
  using assms is_http_no_git(1-3)[OF assms]
  by (simp add: normalize_def is_http_def Let_def)

lemma normalize_other:
  assumes "startsWith (trim x) ''git@'' \<or> startsWith (trim x) ''ssh://''
           \<or> startsWith (trim x) ''git://'' \<or> \<not> is_http (trim x)"
  shows "normalize x = trim x"
  using assms by (auto simp: normalize_def is_http_def Let_def)

lemma normalize_dot_git:
  assumes "is_http c"
  shows "normalize (c @ ''.git'') = c @ ''.git''"
proof -
  have h: "hd (c @ ''.git'') = CHR ''h''" using is_http_no_git(4,5)[OF assms] by simp
  have l: "last (c @ ''.git'') = CHR ''t''" by simp
  have "\<not> is_space (CHR ''h'')" "\<not> is_space (CHR ''t'')" by (simp_all add: is_space_def)
  then have t: "trim (c @ ''.git'') = c @ ''.git''"
    unfolding trim_id_iff h l by blast
  have s: "stripTrailingSlash (c @ ''.git'') = c @ ''.git''"
    unfolding stripTrailingSlash_def l by simp
  have e: "endsWith (c @ ''.git'') ''.git''" by (simp add: endsWith_def)
  have "is_http (trim (c @ ''.git''))" using assms t is_http_append by simp
  then show ?thesis using normalize_http[of "c @ ''.git''"] t s e by (simp add: Let_def)
qed

lemma normalize_idempotent:
  assumes "is_http (trim x) \<longrightarrow> \<not> ends_in_space_or_slash (stripTrailingSlash (trim x))"
  shows "normalize (normalize x) = normalize x"
proof (cases "startsWith (trim x) ''git@'' \<or> startsWith (trim x) ''ssh://''
           \<or> startsWith (trim x) ''git://'' \<or> \<not> is_http (trim x)")
  case True
  then have 1: "normalize x = trim x" by (rule normalize_other)
  have "normalize (trim x) = trim (trim x)"
    using True by (intro normalize_other) (simp only: trim_trim)
  then show ?thesis using 1 by (simp add: trim_trim)
next
  case False
  then have http: "is_http (trim x)" by blast
  let ?c = "stripTrailingSlash (trim x)"
  have nx: "normalize x =
         (if endsWith ?c ''.git'' then ?c
         else if isKnownProvider ?c then ?c @ ''.git''
         else if looksLikeRepositoryUrl ?c then ?c @ ''.git''
         else ?c)"
    using normalize_http[OF http] by (simp add: Let_def)
  have ne: "\<not> ends_in_space_or_slash ?c" using assms http by blast
  have tne: "trim x \<noteq> []" using is_http_no_git(4)[OF http] .
  have c_http: "is_http ?c"
  proof (cases "last (trim x) = CHR ''/''")
    case True
    then have c: "?c = butlast (trim x)" using tne by (simp add: stripTrailingSlash_def)
    have "butlast (trim x) \<noteq> []"
      using http unfolding is_http_cases by auto
    moreover have "last (butlast (trim x)) \<noteq> CHR ''/''"
      using ne c calculation by (simp add: ends_in_space_or_slash_def)
    ultimately show ?thesis using is_http_butlast[OF http] c by simp
  next
    case False
    then show ?thesis using http by (simp add: stripTrailingSlash_def)
  qed
  have cne: "?c \<noteq> []" "hd ?c = CHR ''h''" using is_http_no_git(4,5)[OF c_http] by simp_all
  have l: "\<not> is_space (last ?c)" "last ?c \<noteq> CHR ''/''"
    using ne cne(1) by (simp_all add: ends_in_space_or_slash_def)
  have "\<not> is_space (CHR ''h'')" by (simp add: is_space_def)
  then have tc: "trim ?c = ?c" unfolding trim_id_iff cne(2) using l(1) by blast
  have sc: "stripTrailingSlash ?c = ?c" using l(2) by (simp add: stripTrailingSlash_def)
  have nc: "normalize ?c =
         (if endsWith ?c ''.git'' then ?c
         else if isKnownProvider ?c then ?c @ ''.git''
         else if looksLikeRepositoryUrl ?c then ?c @ ''.git''
         else ?c)"
    using normalize_http[of ?c] c_http by (simp only: tc sc Let_def)
  show ?thesis
    unfolding nx using nc normalize_dot_git[OF c_http] by simp
qed

text \<open>
  Claim C1, as amended. For an owner and a repository name made of word characters,
  dots and hyphens, \<open>normalize\<close> adds \<open>.git\<close> to
  \<open>https://github.com/owner/repo\<close> when that text does not end in \<open>.git\<close>.
  \<open>normalize\<close> applied twice gives the same as applied once for every input that
  is not an HTTP(S) URL, and for every HTTP(S) URL that, trimmed and without one
  trailing slash, does not end in white space or in another slash.
\<close>

theorem normalize_github_idempotent:
  "(name_text owner \<and> name_text repo
      \<and> \<not> endsWith (''https://github.com/'' @ owner @ ''/'' @ repo) ''.git'' \<longrightarrow>
      normalize (''https://github.com/'' @ owner @ ''/'' @ repo)
        = ''https://github.com/'' @ owner @ ''/'' @ repo @ ''.git'')
   \<and> ((is_http (trim x) \<longrightarrow> \<not> ends_in_space_or_slash (stripTrailingSlash (trim x))) \<longrightarrow>
      normalize (normalize x) = normalize x)"
  using normalize_github normalize_idempotent by blast

theorem normalize_github_idempotent_witness:
  "normalize ''https://github.com/a/b'' = ''https://github.com/a/b.git''
   \<and> is_http (trim '' https://github.com/a/b/ '')
   \<and> normalize (normalize '' https://github.com/a/b/ '') = normalize '' https://github.com/a/b/ ''"
proof -
  have 1: "name_text ''a''" "name_text ''b''"
    by (simp_all add: name_text_def wdd_def word_char_def)
  have 2: "\<not> endsWith (''https://github.com/'' @ ''a'' @ ''/'' @ ''b'') ''.git''"
    by (simp add: endsWith_def)
  have 3: "is_http (trim '' https://github.com/a/b/ '')"
    by code_simp
  have 4: "\<not> ends_in_space_or_slash (stripTrailingSlash (trim '' https://github.com/a/b/ ''))"
    by code_simp
  show ?thesis
    using normalize_github_idempotent [of "''a''" "''b''" "'' https://github.com/a/b/ ''"] 1 2 3 4
    by simp
qed

text \<open>
  The claim as stated, for every input, fails, also on a valid input: with two
  trailing slashes the first call removes one slash, and the second call removes the
  other and adds \<open>.git\<close>.
\<close>

theorem normalize_idempotent_counterexample:
  "isValid ''https://git.example.com/a/b//''
   \<and> normalize ''https://git.example.com/a/b//'' = ''https://git.example.com/a/b/''
   \<and> normalize (normalize ''https://git.example.com/a/b//'') = ''https://git.example.com/a/b.git''
   \<and> normalize (normalize ''https://git.example.com/a/b//'')
       \<noteq> normalize ''https://git.example.com/a/b//''"
  by code_simp

section \<open>The fields of a repository\<close>

text \<open>
  Claim C9, as amended. The field \<open>url\<close> of the repository made from an input is
  the input as it is given, not trimmed: it is the trimmed input only when the
  input neither starts nor ends with white space.
\<close>

theorem createRepository_url:
  "url (createRepository u) = u
   \<and> (url (createRepository u) = trim u
        \<longleftrightarrow> u = [] \<or> (\<not> is_space (hd u) \<and> \<not> is_space (last u)))"
  using trim_id_iff [of u] by (auto simp: createRepository_def)

theorem createRepository_url_witness:
  "url (createRepository ''https://github.com/a/b'') = trim ''https://github.com/a/b''
   \<and> url (createRepository ''https://github.com/a/b '') = ''https://github.com/a/b ''"
proof -
  have "\<not> is_space (hd ''https://github.com/a/b'') \<and> \<not> is_space (last ''https://github.com/a/b'')"
    by (simp add: is_space_def)
  then show ?thesis
    using createRepository_url [of "''https://github.com/a/b''"]
      createRepository_url [of "''https://github.com/a/b ''"]
    by blast
qed

text \<open>A valid input with white space around it keeps the white space in \<open>url\<close>.\<close>

theorem createRepository_url_counterexample:
  "isValid '' https://github.com/a/b ''
   \<and> url (createRepository '' https://github.com/a/b '') \<noteq> trim '' https://github.com/a/b ''"
  by code_simp

section \<open>URLs that look like a repository\<close>

lemma lang_Lit_Seq: "u \<in> lang (Seq (Lit l) r) \<longleftrightarrow> (\<exists>q. u = l @ q \<and> q \<in> lang r)"
  by auto

lemma lang_OptLit_Seq:
  "u \<in> lang (Seq (Opt (Lit l)) r) \<longleftrightarrow> u \<in> lang r \<or> (\<exists>q. u = l @ q \<and> q \<in> lang r)"
  by auto

lemma lang_Plus_Seq:
  "u \<in> lang (Seq (Plus wdd) r) \<longleftrightarrow> (\<exists>p q. u = p @ q \<and> name_text p \<and> q \<in> lang r)"
  by (auto simp: name_text_def)

lemma lang_Plus: "u \<in> lang (Plus wdd) \<longleftrightarrow> name_text u"
  by (simp add: name_text_def)

lemma http_host_tail:
  "u \<in> lang (Seq (Lit ''http'') (Seq (Opt (Lit ''s'')) (Seq (Lit ''://'') (Seq (Plus wdd) r))))
   \<longleftrightarrow> (\<exists>host q. name_text host \<and> q \<in> lang r
          \<and> (u = ''http://'' @ host @ q \<or> u = ''https://'' @ host @ q))"
  unfolding lang_Lit_Seq lang_OptLit_Seq lang_Plus_Seq
  by auto

lemma name_text_literals:
  "name_text ''git''" "name_text ''repo''" "name_text ''repos''" "name_text ''scm''"
  "name_text ''projects''" "name_text ''github.com''" "name_text ''gitlab.com''"
  "name_text ''bitbucket.org''"
  by (simp_all add: name_text_def wdd_def word_char_def)

lemma two_segment_urlI:
  assumes "name_text host" "name_text a" "name_text b"
    and "u = ''http://'' @ host @ ''/'' @ a @ ''/'' @ b \<or> u = ''https://'' @ host @ ''/'' @ a @ ''/'' @ b"
  shows "two_segment_url u"
  unfolding two_segment_url_def using assms by blast

lemma tail_two:
  "q \<in> lang (Seq (Lit ''/'') (Seq (Plus wdd) (Seq (Lit ''/'') (Plus wdd))))
   \<longleftrightarrow> (\<exists>a b. name_text a \<and> name_text b \<and> q = ''/'' @ a @ ''/'' @ b)"
  unfolding lang_Lit_Seq lang_Plus_Seq lang_Plus by auto

lemma pattern_two_segments:
  "test (cat [Lit ''http'', Opt (Lit ''s''), Lit ''://'', Plus wdd, Lit ''/'', Plus wdd, Lit ''/'',
          Plus wdd]) u \<longleftrightarrow> two_segment_url u"
  unfolding test_lang cat.simps http_host_tail tail_two two_segment_url_def
  by auto

lemma pattern_prefixed:
  assumes "name_text a"
  shows "test (cat [Lit ''http'', Opt (Lit ''s''), Lit ''://'', Plus wdd, Lit (''/'' @ a @ ''/''), Plus wdd]) u
         \<Longrightarrow> two_segment_url u"
proof -
  assume "test (cat [Lit ''http'', Opt (Lit ''s''), Lit ''://'', Plus wdd, Lit (''/'' @ a @ ''/''), Plus wdd]) u"
  then obtain host q where h: "name_text host" "q \<in> lang (Seq (Lit (''/'' @ a @ ''/'')) (Plus wdd))"
     "u = ''http://'' @ host @ q \<or> u = ''https://'' @ host @ q"
    unfolding test_lang cat.simps http_host_tail by blast
  from h(2) obtain b where b: "name_text b" "q = ''/'' @ a @ ''/'' @ b"
    unfolding lang_Lit_Seq lang_Plus by auto
  show ?thesis using two_segment_urlI[OF h(1) assms b(1)] h(3) b(2) by simp
qed

lemma pattern_repos:
  assumes "test (cat [Lit ''http'', Opt (Lit ''s''), Lit ''://'', Plus wdd, Lit ''/repo'', Opt (Lit ''s''),
          Lit ''/'', Plus wdd]) u"
  shows "two_segment_url u"
proof -
  from assms obtain host q where h: "name_text host"
     "q \<in> lang (Seq (Lit ''/repo'') (Seq (Opt (Lit ''s'')) (Seq (Lit ''/'') (Plus wdd))))"
     "u = ''http://'' @ host @ q \<or> u = ''https://'' @ host @ q"
    unfolding test_lang cat.simps http_host_tail by blast
  from h(2) obtain b where b: "name_text b" "q = ''/'' @ ''repo'' @ ''/'' @ b \<or> q = ''/'' @ ''repos'' @ ''/'' @ b"
    unfolding lang_Lit_Seq lang_OptLit_Seq lang_Plus by auto
  from b(2) show ?thesis
  proof
    assume "q = ''/'' @ ''repo'' @ ''/'' @ b"
    then show ?thesis using two_segment_urlI[OF h(1) name_text_literals(2) b(1)] h(3) by simp
  next
    assume "q = ''/'' @ ''repos'' @ ''/'' @ b"
    then show ?thesis using two_segment_urlI[OF h(1) name_text_literals(3) b(1)] h(3) by simp
  qed
qed

lemma looksLikeRepositoryUrl_iff: "looksLikeRepositoryUrl u \<longleftrightarrow> two_segment_url u"
proof
  assume "looksLikeRepositoryUrl u"
  then show "two_segment_url u"
    unfolding looksLikeRepositoryUrl_def repoPatterns_def list_ex_Cons_iff list_ex_Nil_iff
    using pattern_two_segments[of u] pattern_repos[of u]
      pattern_prefixed[OF name_text_literals(1), of u]
      pattern_prefixed[OF name_text_literals(4), of u]
      pattern_prefixed[OF name_text_literals(5), of u]
    by auto
next
  assume "two_segment_url u"
  then show "looksLikeRepositoryUrl u"
    unfolding looksLikeRepositoryUrl_def repoPatterns_def list_ex_Cons_iff list_ex_Nil_iff
    using pattern_two_segments[of u] by blast
qed

lemma pattern_provider:
  assumes "name_text host"
    and "test (cat [Lit ''http'', Opt (Lit ''s''), Lit (''://'' @ host @ ''/''), Plus wdd, Lit ''/'', Plus wdd]) u"
  shows "two_segment_url u"
proof -
  from assms(2) obtain a b where ab: "name_text a" "name_text b"
    "u = ''http'' @ (''://'' @ host @ ''/'') @ a @ ''/'' @ b \<or> u = ''http'' @ ''s'' @ (''://'' @ host @ ''/'') @ a @ ''/'' @ b"
    unfolding test_lang cat.simps lang_Lit_Seq lang_OptLit_Seq lang_Plus_Seq lang_Plus by auto
  show ?thesis using two_segment_urlI[OF assms(1) ab(1,2)] ab(3) by simp
qed

lemma isKnownProvider_two_segments: "isKnownProvider u \<Longrightarrow> two_segment_url u"
  unfolding isKnownProvider_def knownProviders_def list_ex_Cons_iff list_ex_Nil_iff
  using pattern_provider[OF name_text_literals(6), of u]
    pattern_provider[OF name_text_literals(7), of u]
    pattern_provider[OF name_text_literals(8), of u]
  by auto

lemma normalize_two_segments:
  assumes "is_http (trim x)" "\<not> endsWith (stripTrailingSlash (trim x)) ''.git''"
  shows "normalize x =
           (if two_segment_url (stripTrailingSlash (trim x))
            then stripTrailingSlash (trim x) @ ''.git''
            else stripTrailingSlash (trim x))"
  using normalize_http[OF assms(1)] assms(2) isKnownProvider_two_segments
  by (auto simp: Let_def looksLikeRepositoryUrl_iff)

text \<open>
  Claim C2, as amended. For every HTTP(S) URL which, trimmed and without one
  trailing slash, does not end in \<open>.git\<close>: \<open>normalize\<close> adds \<open>.git\<close> to that
  cleaned URL when it has exactly two path segments after the host (the shapes
  \<open>/git/x\<close>, \<open>/repo/x\<close>, \<open>/repos/x\<close>, \<open>/scm/x\<close> and \<open>/projects/x\<close> are
  among them), and returns the cleaned URL unchanged otherwise, also when the path
  has three segments or more. This holds for every host.
\<close>

theorem normalize_two_segment_url:
  "is_http (trim x) \<and> \<not> endsWith (stripTrailingSlash (trim x)) ''.git'' \<longrightarrow>
     normalize x =
       (if two_segment_url (stripTrailingSlash (trim x))
        then stripTrailingSlash (trim x) @ ''.git''
        else stripTrailingSlash (trim x))"
  using normalize_two_segments by blast

theorem normalize_two_segment_url_witness:
  "normalize ''https://code.example.com/scm/project/'' = ''https://code.example.com/scm/project.git''
   \<and> normalize ''https://example.com/download'' = ''https://example.com/download''"
proof -
  have c: "stripTrailingSlash (trim ''https://code.example.com/scm/project/'')
             = ''https://code.example.com/scm/project''"
          "stripTrailingSlash (trim ''https://example.com/download'')
             = ''https://example.com/download''"
    by code_simp+
  have h: "is_http (trim ''https://code.example.com/scm/project/'')"
          "is_http (trim ''https://example.com/download'')"
    by code_simp+
  have e: "\<not> endsWith ''https://code.example.com/scm/project'' ''.git''"
          "\<not> endsWith ''https://example.com/download'' ''.git''"
    by code_simp+
  have l: "looksLikeRepositoryUrl ''https://code.example.com/scm/project''"
       "\<not> looksLikeRepositoryUrl ''https://example.com/download''"
    by code_simp+
  have t: "two_segment_url ''https://code.example.com/scm/project''"
       "\<not> two_segment_url ''https://example.com/download''"
    using l looksLikeRepositoryUrl_iff by blast+
  show ?thesis
    using normalize_two_segment_url [of "''https://code.example.com/scm/project/''"]
      normalize_two_segment_url [of "''https://example.com/download''"] h e t
    by (simp only: c append.simps if_True if_False simp_thms)
qed

text \<open>
  The claim as stated, for two segments or more, fails: a path of three segments,
  and a path \<open>/git/\<close> with two segments after it, get no \<open>.git\<close>.
\<close>

theorem normalize_more_segments_counterexample:
  "is_http ''https://example.com/a/b/c'' \<and> \<not> endsWith ''https://example.com/a/b/c'' ''.git''
   \<and> normalize ''https://example.com/a/b/c'' = ''https://example.com/a/b/c''
   \<and> normalize ''https://example.com/a/b/c'' \<noteq> ''https://example.com/a/b/c.git''
   \<and> normalize ''https://example.com/git/a/b'' = ''https://example.com/git/a/b''"
  by code_simp

section \<open>The name of a repository\<close>

lemma run_restD: "(c, t) \<in> set (run r s) \<Longrightarrow> \<exists>p\<in>lang r. s = p @ t"
proof -
  assume "(c, t) \<in> set (run r s)"
  then have "t \<in> snd ` set (run r s)" by force
  then show ?thesis unfolding run_rests by simp
qed

lemma captures_in_groups:
  "(c, t) \<in> set (run r s) \<Longrightarrow> (n, v) \<in> set c \<Longrightarrow> \<exists>b. (n, b) \<in> set (groups r) \<and> v \<in> lang b"
proof (induction r arbitrary: s c t)
  case (Lit l)
  then show ?case by (auto split: if_splits)
next
  case (Plus x)
  then show ?case by auto
next
  case (PlusLazy x)
  then show ?case by auto
next
  case (Opt r)
  then show ?case by auto
next
  case (Seq r1 r2)
  from Seq.prems(1) obtain c1 s1 c2 where
    m: "(c1, s1) \<in> set (run r1 s)" "(c2, t) \<in> set (run r2 s1)" "c = c1 @ c2"
    by auto
  from Seq.prems(2) m(3) consider "(n, v) \<in> set c1" | "(n, v) \<in> set c2" by auto
  then show ?case
  proof cases
    case 1
    then show ?thesis using Seq.IH(1)[OF m(1)] by auto
  next
    case 2
    then show ?thesis using Seq.IH(2)[OF m(2)] by auto
  qed
next
  case (Group k r)
  from Group.prems(1) obtain c' where
    m: "(c', t) \<in> set (run r s)" "c = (k, take (length s - length t) s) # c'"
    by auto
  from Group.prems(2) m(2) consider "n = k \<and> v = take (length s - length t) s" | "(n, v) \<in> set c'"
    by auto
  then show ?case
  proof cases
    case 1
    obtain p where "p \<in> lang r" "s = p @ t" using run_restD[OF m(1)] by blast
    then have "take (length s - length t) s \<in> lang r" by simp
    then show ?thesis using 1 by auto
  next
    case 2
    then show ?thesis using Group.IH[OF m(1)] by auto
  qed
qed

lemma mandatory_captured:
  "(c, t) \<in> set (run r s) \<Longrightarrow> n \<in> mandatory r \<Longrightarrow> n \<in> fst ` set c"
proof (induction r arbitrary: s c t)
  case (Seq r1 r2)
  from Seq.prems(1) obtain c1 s1 c2 where
    m: "(c1, s1) \<in> set (run r1 s)" "(c2, t) \<in> set (run r2 s1)" "c = c1 @ c2"
    by auto
  from Seq.prems(2) consider "n \<in> mandatory r1" | "n \<in> mandatory r2" by auto
  then show ?case
  proof cases
    case 1
    then show ?thesis using Seq.IH(1)[OF m(1)] m(3) by auto
  next
    case 2
    then show ?thesis using Seq.IH(2)[OF m(2)] m(3) by auto
  qed
next
  case (Group k r)
  from Group.prems(1) obtain c' where
    m: "(c', t) \<in> set (run r s)" "c = (k, take (length s - length t) s) # c'"
    by auto
  show ?case
  proof (cases "n = k")
    case True
    then show ?thesis using m(2) by simp
  next
    case False
    then have "n \<in> mandatory r" using Group.prems(2) by simp
    then show ?thesis using Group.IH[OF m(1)] m(2) by auto
  qed
qed simp_all

lemma first_full_Some: "first_full ms = Some c \<Longrightarrow> (c, []) \<in> set ms"
  by (induction ms rule: first_full.induct) (auto split: if_splits)

lemma match_end_Some: "match_end r s = Some c \<Longrightarrow> \<exists>s'. (c, []) \<in> set (run r s')"
proof (induction s)
  case Nil
  then show ?case using first_full_Some by auto
next
  case (Cons x xs)
  then show ?case using first_full_Some by (auto split: option.splits)
qed

lemma capture_lang:
  assumes "match_end r s = Some m" "n \<in> mandatory r"
  shows "\<exists>b. (n, b) \<in> set (groups r) \<and> capture m n \<in> lang b"
proof -
  obtain s' where r: "(m, []) \<in> set (run r s')" using match_end_Some[OF assms(1)] by blast
  have "n \<in> fst ` set m" using mandatory_captured[OF r assms(2)] .
  then obtain v where v: "map_of m n = Some v"
    by (metis map_of_eq_None_iff not_Some_eq)
  then have "(n, v) \<in> set m" by (rule map_of_SomeD)
  then show ?thesis using captures_in_groups[OF r] v by (simp add: capture_def)
qed

text \<open>The groups that \<open>extractRepositoryName\<close> reads are defined in every match.\<close>

lemma extract_captures_defined:
  "match_end sshNamePattern u = Some m \<Longrightarrow> map_of m 2 \<noteq> None"
  "match_end urlNamePattern u = Some m \<Longrightarrow> map_of m 1 \<noteq> None"
  "match_end pathNamePattern u = Some m \<Longrightarrow> map_of m 1 \<noteq> None"
proof -
  have d: "map_of m n \<noteq> None" if a: "match_end r u = Some m" and b: "n \<in> mandatory r" for r n
  proof -
    obtain s' where "(m, []) \<in> set (run r s')" using match_end_Some[OF a] by blast
    then have "n \<in> fst ` set m" using mandatory_captured b by blast
    then show ?thesis by (simp add: map_of_eq_None_iff)
  qed
  show "match_end sshNamePattern u = Some m \<Longrightarrow> map_of m 2 \<noteq> None"
    using d[of sshNamePattern 2] by (simp add: sshNamePattern_def)
  show "match_end urlNamePattern u = Some m \<Longrightarrow> map_of m 1 \<noteq> None"
    using d[of urlNamePattern 1] by (simp add: urlNamePattern_def)
  show "match_end pathNamePattern u = Some m \<Longrightarrow> map_of m 1 \<noteq> None"
    using d[of pathNamePattern 1] by (simp add: pathNamePattern_def)
qed

lemma extractRepositoryName_no_slash: "CHR ''/'' \<notin> set (extractRepositoryName u)"
proof -
  have 1: "CHR ''/'' \<notin> set (capture m 2)" if "match_end sshNamePattern u = Some m" for m
    using capture_lang[OF that, of 2] by (auto simp: sshNamePattern_def not_slash_def)
  have 2: "CHR ''/'' \<notin> set (capture m 1)" if "match_end urlNamePattern u = Some m" for m
    using capture_lang[OF that, of 1] by (auto simp: urlNamePattern_def not_slash_def)
  have 3: "CHR ''/'' \<notin> set (capture m 1)" if "match_end pathNamePattern u = Some m" for m
    using capture_lang[OF that, of 1] by (auto simp: pathNamePattern_def not_slash_colon_def)
  show ?thesis
    unfolding extractRepositoryName_def using 1 2 3
    by (auto split: option.splits if_splits)
qed

lemma first_full_append:
  "first_full (xs @ ys) = (case first_full xs of Some c \<Rightarrow> Some c | None \<Rightarrow> first_full ys)"
  by (induction xs rule: first_full.induct) auto

lemma first_full_map:
  "first_full (map (\<lambda>(c2, s2). (g c2, s2)) ms) = map_option g (first_full ms)"
  by (induction ms rule: first_full.induct) auto

lemma first_full_concat_None:
  "(\<forall>x\<in>set xs. first_full (f x) = None) \<Longrightarrow> first_full (concat (map f xs)) = None"
  by (induction xs) (auto simp: first_full_append)

lemma upt_split: "1 \<le> k \<Longrightarrow> k \<le> m \<Longrightarrow> [1 ..< Suc m] = [1 ..< k] @ k # [Suc k ..< Suc m]"
proof (induction m)
  case 0
  then show ?case by simp
next
  case (Suc m)
  show ?case
  proof (cases "k = Suc m")
    case True
    then show ?thesis by simp
  next
    case False
    then have "k \<le> m" using Suc.prems(2) by simp
    then have "[1 ..< Suc m] = [1 ..< k] @ k # [Suc k ..< Suc m]"
      using Suc.IH Suc.prems(1) by blast
    moreover have "[1 ..< Suc (Suc m)] = [1 ..< Suc m] @ [Suc m]" by simp
    moreover have "[Suc k ..< Suc (Suc m)] = [Suc k ..< Suc m] @ [Suc m]"
      using \<open>k \<le> m\<close> by simp
    ultimately show ?thesis by (simp only: append_assoc append_Cons)
  qed
qed


lemma run_lazy_group:
  "run (Seq (Group n (PlusLazy c)) T) s =
     concat (map (\<lambda>k. map (\<lambda>(c2, s2). ((n, take (length s - length (drop k s)) s) # c2, s2))
                         (run T (drop k s)))
                 [1 ..< Suc (length (takeWhile c s))])"
proof -
  have "run (Group n (PlusLazy c)) s
        = map (\<lambda>k. ([(n, take (length s - length (drop k s)) s)], drop k s))
            [1 ..< Suc (length (takeWhile c s))]"
    by (simp only: run.simps map_map comp_def case_prod_conv)
  then have "run (Seq (Group n (PlusLazy c)) T) s
        = concat (map (\<lambda>(c1, s1). map (\<lambda>(c2, s2). (c1 @ c2, s2)) (run T s1))
            (map (\<lambda>k. ([(n, take (length s - length (drop k s)) s)], drop k s))
            [1 ..< Suc (length (takeWhile c s))]))"
    by (simp only: run.simps)
  also have "\<dots> = concat (map (\<lambda>k. map (\<lambda>(c2, s2). ((n, take (length s - length (drop k s)) s) # c2, s2))
                         (run T (drop k s)))
                 [1 ..< Suc (length (takeWhile c s))])"
    by (simp only: map_map comp_def case_prod_conv append_Cons append_Nil)
  finally show ?thesis .
qed

text \<open>A lazy group takes the shortest text after which the rest of the pattern matches.\<close>

lemma first_full_lazy:
  assumes "1 \<le> k" "k \<le> length (takeWhile c s)"
    and "\<forall>j. 1 \<le> j \<and> j < k \<longrightarrow> first_full (run T (drop j s)) = None"
    and "first_full (run T (drop k s)) = Some cT"
  shows "first_full (run (Seq (Group n (PlusLazy c)) T) s) = Some ((n, take k s) # cT)"
proof -
  let ?f = "\<lambda>k. map (\<lambda>(c2, s2). ((n, take (length s - length (drop k s)) s) # c2, s2))
                         (run T (drop k s))"
  have ks: "k \<le> length s" using assms(2) length_takeWhile_le[of c s] by linarith
  have before: "first_full (concat (map ?f [1 ..< k])) = None"
  proof (rule first_full_concat_None, rule ballI)
    fix j assume "j \<in> set [1 ..< k]"
    then have "first_full (run T (drop j s)) = None" using assms(3) by simp
    then show "first_full (?f j) = None" by (simp only: first_full_map option.map)
  qed
  have "first_full (?f k) = Some ((n, take (length s - length (drop k s)) s) # cT)"
    by (simp only: first_full_map assms(4) option.map)
  moreover have "length s - length (drop k s) = k" using ks by simp
  ultimately have at: "first_full (?f k) = Some ((n, take k s) # cT)" by simp
  have "run (Seq (Group n (PlusLazy c)) T) s
        = concat (map ?f [1 ..< k]) @ ?f k @ concat (map ?f [Suc k ..< Suc (length (takeWhile c s))])"
    by (simp only: run_lazy_group upt_split[OF assms(1,2)] map_append concat_append list.map concat.simps append_assoc)
  then show ?thesis by (simp only: first_full_append before at option.case)
qed


lemma no_groups_captures:
  assumes "groups r = []" "(c, t) \<in> set (run r s)"
  shows "c = []"
proof (cases c)
  case Nil
  then show ?thesis .
next
  case (Cons a c')
  obtain n v where "a = (n, v)" by (cases a)
  then have "(n, v) \<in> set c" using Cons by simp
  then obtain b where "(n, b) \<in> set (groups r)" using captures_in_groups[OF assms(2)] by blast
  then show ?thesis using assms(1) by simp
qed

lemma first_full_no_groups:
  assumes "groups r = []"
  shows "first_full (run r s) = (if s \<in> lang r then Some [] else None)"
proof (cases "first_full (run r s)")
  case None
  then show ?thesis using test_lang[of r s] by (simp add: test_def)
next
  case (Some c)
  then have "(c, []) \<in> set (run r s)" by (rule first_full_Some)
  then have "c = []" using no_groups_captures[OF assms] by blast
  then show ?thesis using Some test_lang[of r s] by (simp add: test_def)
qed

lemma tail_full:
  "first_full (run (Seq (Opt (Lit ''.git'')) (Opt (Lit ''/''))) s)
     = (if s = ''.git/'' \<or> s = ''.git'' \<or> s = ''/'' \<or> s = [] then Some [] else None)"
proof -
  have "s \<in> lang (Seq (Opt (Lit ''.git'')) (Opt (Lit ''/'')))
        \<longleftrightarrow> s = ''.git/'' \<or> s = ''.git'' \<or> s = ''/'' \<or> s = []"
    unfolding lang_OptLit_Seq by auto
  moreover have "groups (Seq (Opt (Lit ''.git'')) (Opt (Lit ''/''))) = []" by simp
  ultimately show ?thesis
    using first_full_no_groups[of "Seq (Opt (Lit ''.git'')) (Opt (Lit ''/''))" s]
    by presburger
qed


lemma endsWith_git:
  "endsWith h ''.git'' \<longleftrightarrow> 4 \<le> length h \<and> drop (length h - 4) h = ''.git''"
proof -
  have l: "length ''.git'' = (4::nat)" by simp
  show ?thesis unfolding endsWith_def l ..
qed

lemma segment_name:
  assumes "bare_host h"
  shows "first_full (run (Seq (Group 1 (PlusLazy not_slash))
                           (Seq (Opt (Lit ''.git'')) (Opt (Lit ''/'')))) h)
         = Some [(1, without_git_suffix h)]"
proof -
  let ?T = "Seq (Opt (Lit ''.git'')) (Opt (Lit ''/''))"
  let ?k = "if endsWith h ''.git'' \<and> 4 < length h then length h - 4 else length h"
  have h: "h \<noteq> []" "CHR ''/'' \<notin> set h" using assms by (simp_all add: bare_host_def)
  have tw: "takeWhile not_slash h = h"
    using h(2) by (auto simp: takeWhile_eq_all_conv not_slash_def)
  have k1: "1 \<le> ?k" using h(1) by (cases h) auto
  have k2: "?k \<le> length (takeWhile not_slash h)" unfolding tw by simp
  have before: "\<forall>j. 1 \<le> j \<and> j < ?k \<longrightarrow> first_full (run ?T (drop j h)) = None"
  proof (intro allI impI)
    fix j assume j: "1 \<le> j \<and> j < ?k"
    then have jl: "j < length h" by (auto split: if_splits)
    have ns: "CHR ''/'' \<notin> set (drop j h)" using h(2) in_set_dropD by fastforce
    have 1: "drop j h \<noteq> []" using jl by simp
    have 2: "drop j h \<noteq> ''.git/''" "drop j h \<noteq> ''/''" using ns by auto
    have 3: "drop j h \<noteq> ''.git''"
    proof
      assume d: "drop j h = ''.git''"
      then have "length (drop j h) = 4" by simp
      then have l: "length h - 4 = j" "4 < length h" using jl j by auto
      then have "endsWith h ''.git''" using d unfolding endsWith_git by simp
      then have "?k = j" using l by simp
      then show False using j by simp
    qed
    show "first_full (run ?T (drop j h)) = None"
      unfolding tail_full using 1 2 3 by simp
  qed
  have at: "first_full (run ?T (drop ?k h)) = Some []"
    unfolding tail_full by (auto simp: endsWith_git)
  have "take ?k h = without_git_suffix h" by (simp add: without_git_suffix_def)
  then show ?thesis using first_full_lazy[OF k1 k2 before at, of 1] by simp
qed

lemma run_Lit_miss: "x \<noteq> c \<Longrightarrow> run (Seq (Lit [c]) R) (x # xs) = []"
  by (simp add: startsWith_def)

lemma run_Lit_hit: "run (Seq (Lit [c]) R) (c # xs) = run R xs"
  by (simp add: startsWith_def case_prod_unfold)

lemma run_lazy_none: "\<not> c x \<Longrightarrow> run (Seq (Group n (PlusLazy c)) T) (x # xs) = []"
  by simp

lemma match_end_skip:
  "x \<noteq> CHR ''/'' \<Longrightarrow> match_end urlNamePattern (x # xs) = match_end urlNamePattern xs"
  by (simp add: urlNamePattern_def run_Lit_miss del: run.simps)

lemma match_end_slashes:
  assumes "bare_host h"
  shows "match_end urlNamePattern (''//'' @ h) = Some [(1, without_git_suffix h)]"
proof -
  let ?R = "Seq (Group 1 (PlusLazy not_slash)) (Seq (Opt (Lit ''.git'')) (Opt (Lit ''/'')))"
  have p: "urlNamePattern = Seq (Lit ''/'') ?R" by (simp add: urlNamePattern_def)
  obtain x xs where h: "h = x # xs" using assms by (cases h) (auto simp: bare_host_def)
  have 1: "first_full (run urlNamePattern (''//'' @ h)) = None"
    unfolding p by (simp add: run_Lit_hit run_lazy_none not_slash_def del: run.simps)
  have 2: "first_full (run urlNamePattern (''/'' @ h)) = Some [(1, without_git_suffix h)]"
    unfolding p using segment_name[OF assms] by (simp add: run_Lit_hit del: run.simps)
  have "match_end urlNamePattern (''//'' @ h)
        = (case first_full (run urlNamePattern (''/'' @ h)) of
             Some c \<Rightarrow> Some c | None \<Rightarrow> match_end urlNamePattern h)"
    using 1 by simp
  then show ?thesis using 2 by simp
qed

lemma str_includes_scheme:
  "str_includes (''https://'' @ h) ''://''" "str_includes (''http://'' @ h) ''://''"
  by (simp_all add: startsWith_def)

lemma extractRepositoryName_bare_host:
  assumes "bare_host h"
  shows "extractRepositoryName (''https://'' @ h) = without_git_suffix h"
    and "extractRepositoryName (''http://'' @ h) = without_git_suffix h"
proof -
  have "match_end urlNamePattern (''https://'' @ h) = match_end urlNamePattern (''//'' @ h)"
    by (simp add: match_end_skip del: match_end.simps)
  then have 1: "match_end urlNamePattern (''https://'' @ h) = Some [(1, without_git_suffix h)]"
    using match_end_slashes[OF assms] by simp
  have "match_end urlNamePattern (''http://'' @ h) = match_end urlNamePattern (''//'' @ h)"
    by (simp add: match_end_skip del: match_end.simps)
  then have 2: "match_end urlNamePattern (''http://'' @ h) = Some [(1, without_git_suffix h)]"
    using match_end_slashes[OF assms] by simp
  show "extractRepositoryName (''https://'' @ h) = without_git_suffix h"
    unfolding extractRepositoryName_def using 1 str_includes_scheme(1)[of h]
    by (simp add: capture_def del: str_includes.simps append.simps)
  show "extractRepositoryName (''http://'' @ h) = without_git_suffix h"
    unfolding extractRepositoryName_def using 2 str_includes_scheme(2)[of h]
    by (simp add: capture_def del: str_includes.simps append.simps)
qed

text \<open>
  Claim C7, as amended. For a URL that is a scheme and a bare host with no path,
  \<open>extractRepositoryName\<close> returns the host, without a final \<open>.git\<close>: the host
  is the last text after a slash. It returns \<open>repository\<close> when there is nothing
  to extract, as for \<open>https://\<close> and for the empty text. For every input the name
  that it returns has no slash.
\<close>

theorem extractRepositoryName_host_no_slash:
  "(bare_host h \<longrightarrow>
       extractRepositoryName (''https://'' @ h) = without_git_suffix h
     \<and> extractRepositoryName (''http://'' @ h) = without_git_suffix h)
   \<and> extractRepositoryName ''https://'' = ''repository''
   \<and> extractRepositoryName [] = ''repository''
   \<and> CHR ''/'' \<notin> set (extractRepositoryName u)"
proof (intro conjI impI)
  show "extractRepositoryName ''https://'' = ''repository''" by code_simp
  show "extractRepositoryName [] = ''repository''" by code_simp
  show "CHR ''/'' \<notin> set (extractRepositoryName u)" by (rule extractRepositoryName_no_slash)
next
  assume "bare_host h"
  then show "extractRepositoryName (''https://'' @ h) = without_git_suffix h"
    by (rule extractRepositoryName_bare_host(1))
next
  assume "bare_host h"
  then show "extractRepositoryName (''http://'' @ h) = without_git_suffix h"
    by (rule extractRepositoryName_bare_host(2))
qed

theorem extractRepositoryName_host_no_slash_witness:
  "bare_host ''git.example.org''
   \<and> extractRepositoryName ''https://git.example.org'' = ''git.example.org''
   \<and> extractRepositoryName ''http://git.example.org'' = ''git.example.org''
   \<and> CHR ''/'' \<notin> set (extractRepositoryName ''https://github.com/a/b.git/'')"
proof -
  have b: "bare_host ''git.example.org''" by (simp add: bare_host_def)
  have w: "without_git_suffix ''git.example.org'' = ''git.example.org''"
    by (simp add: without_git_suffix_def endsWith_def)
  show ?thesis
    using extractRepositoryName_host_no_slash
            [of "''git.example.org''" "''https://github.com/a/b.git/''"] b w
    by simp
qed

text \<open>The claim as stated fails for a bare host: the name is the host, not the fallback.\<close>

theorem extractRepositoryName_host_counterexample:
  "extractRepositoryName ''https://github.com'' = ''github.com''
   \<and> extractRepositoryName ''https://github.com'' \<noteq> ''repository''"
  by code_simp

section \<open>The target path in an existing project\<close>

lemma findTargetPath_least:
  assumes "\<forall>j<k. fs_existsSync h (candidate h root (name r) j)"
    and "\<not> fs_existsSync h (candidate h root (name r) k)"
  shows "c \<le> k \<Longrightarrow>
         findTargetPath h r root (candidate h root (name r) c) (Suc c)
           = Some (candidate h root (name r) k)"
proof (induction "k - c" arbitrary: c)
  case 0
  then have "c = k" by simp
  then show ?case using assms(2) by (subst findTargetPath.simps) simp
next
  case (Suc d)
  then have lt: "c < k" by simp
  then have ex: "fs_existsSync h (candidate h root (name r) c)" using assms(1) by blast
  have next_tp: "path_join h root (name r @ ''-'' @ decimal (Suc c)) = candidate h root (name r) (Suc c)"
    by (simp add: candidate_def)
  have "findTargetPath h r root (candidate h root (name r) c) (Suc c)
        = findTargetPath h r root (candidate h root (name r) (Suc c)) (Suc (Suc c))"
    using ex next_tp by (subst findTargetPath.simps) simp
  also have "\<dots> = Some (candidate h root (name r) k)"
    using Suc.hyps(1)[of "Suc c"] Suc.hyps(2) lt by simp
  finally show ?case .
qed

text \<open>
  Claim C3. In a workspace root where \<open>detect\<close> reports project markers,
  \<open>resolve\<close> returns a location that is not the root (\<open>cloneToRoot\<close> is false),
  with the message of the new folder, and its target is the candidate
  \<open>{root}/{name}-k\<close> for the least \<open>k\<close> whose candidate does not exist, where the
  candidate for \<open>k = 0\<close> is \<open>{root}/{name}\<close>: \<open>{root}/foo-1\<close> when only
  \<open>{root}/foo\<close> exists, \<open>{root}/foo-2\<close> when \<open>{root}/foo-1\<close> exists too. The loop
  ends, since such a \<open>k\<close> exists.
\<close>

theorem resolve_new_subfolder:
  "hasCommonFiles (detect h root)
   \<and> (\<forall>j<k. fs_existsSync h (candidate h root (name repository) j))
   \<and> \<not> fs_existsSync h (candidate h root (name repository) k) \<longrightarrow>
     resolve h repository (Some (root # others))
       = Some \<lparr>targetPath = candidate h root (name repository) k,
               cloneToRoot = False,
               message = ''Cloning '' @ name repository @ '' to new folder (avoiding conflicts)''\<rparr>"
proof
  assume a: "hasCommonFiles (detect h root)
   \<and> (\<forall>j<k. fs_existsSync h (candidate h root (name repository) j))
   \<and> \<not> fs_existsSync h (candidate h root (name repository) k)"
  have "findTargetPath h repository root (candidate h root (name repository) 0) (Suc 0)
          = Some (candidate h root (name repository) k)"
    using a by (intro findTargetPath_least) simp_all
  then have "findTargetPath h repository root (path_join h root (name repository)) 1
          = Some (candidate h root (name repository) k)"
    by (simp add: candidate_def)
  then show "resolve h repository (Some (root # others))
       = Some \<lparr>targetPath = candidate h root (name repository) k,
               cloneToRoot = False,
               message = ''Cloning '' @ name repository @ '' to new folder (avoiding conflicts)''\<rparr>"
    using a by (simp add: resolve_def resolveForExistingProject_def Let_def)
qed

text \<open>The witness: \<open>/ws/foo\<close> exists; then \<open>/ws/foo-1\<close> too; then neither.\<close>

lemma decimal_small: "decimal (Suc 0) = ''1''" "decimal 2 = ''2''"
  by (simp_all add: decimal.simps digit_def)

theorem resolve_new_subfolder_witness:
  "resolve (example_host (Some [(''package.json'', RegularFile), (''foo'', Directory)]) [''/ws/foo''] [])
      \<lparr>url = ''https://github.com/a/foo'', name = ''foo'', normalizedUrl = ''https://github.com/a/foo.git''\<rparr>
      (Some [''/ws''])
     = Some \<lparr>targetPath = ''/ws/foo-1'', cloneToRoot = False,
             message = ''Cloning foo to new folder (avoiding conflicts)''\<rparr>
   \<and> resolve (example_host (Some [(''package.json'', RegularFile), (''foo'', Directory), (''foo-1'', Directory)])
               [''/ws/foo'', ''/ws/foo-1''] [])
      \<lparr>url = ''https://github.com/a/foo'', name = ''foo'', normalizedUrl = ''https://github.com/a/foo.git''\<rparr>
      (Some [''/ws''])
     = Some \<lparr>targetPath = ''/ws/foo-2'', cloneToRoot = False,
             message = ''Cloning foo to new folder (avoiding conflicts)''\<rparr>
   \<and> resolve (example_host (Some [(''package.json'', RegularFile)]) [] [])
      \<lparr>url = ''https://github.com/a/foo'', name = ''foo'', normalizedUrl = ''https://github.com/a/foo.git''\<rparr>
      (Some [''/ws''])
     = Some \<lparr>targetPath = ''/ws/foo'', cloneToRoot = False,
             message = ''Cloning foo to new folder (avoiding conflicts)''\<rparr>"
proof -
  let ?h1 = "example_host (Some [(''package.json'', RegularFile), (''foo'', Directory)]) [''/ws/foo''] []"
  let ?h2 = "example_host (Some [(''package.json'', RegularFile), (''foo'', Directory), (''foo-1'', Directory)])
               [''/ws/foo'', ''/ws/foo-1''] []"
  let ?h0 = "example_host (Some [(''package.json'', RegularFile)]) [] []"
  let ?r = "\<lparr>url = ''https://github.com/a/foo'', name = ''foo'', normalizedUrl = ''https://github.com/a/foo.git''\<rparr>"
  have m: "hasCommonFiles (detect ?h1 ''/ws'')" "hasCommonFiles (detect ?h2 ''/ws'')"
    "hasCommonFiles (detect ?h0 ''/ws'')"
    by code_simp+
  have c: "candidate h ''/ws'' ''foo'' 0 = path_join h ''/ws'' ''foo''"
          "candidate h ''/ws'' ''foo'' (Suc 0) = path_join h ''/ws'' ''foo-1''"
          "candidate h ''/ws'' ''foo'' 2 = path_join h ''/ws'' ''foo-2''" for h
    by (simp_all add: candidate_def decimal_small)
  have j: "path_join (example_host es ex ev) a b = a @ ''/'' @ b"
          "fs_existsSync (example_host es ex ev) p = (p \<in> set ex)" for es ex ev a b p
    by (simp_all add: example_host_def)
  have e1: "\<forall>j<1. fs_existsSync ?h1 (candidate ?h1 ''/ws'' ''foo'' j)"
           "\<not> fs_existsSync ?h1 (candidate ?h1 ''/ws'' ''foo'' 1)"
    by (simp_all add: c j)
  have e2: "\<forall>j<2. fs_existsSync ?h2 (candidate ?h2 ''/ws'' ''foo'' j)"
           "\<not> fs_existsSync ?h2 (candidate ?h2 ''/ws'' ''foo'' 2)"
    by (simp_all add: c j less_2_cases_iff)
  have e0: "\<forall>j<0. fs_existsSync ?h0 (candidate ?h0 ''/ws'' ''foo'' j)"
           "\<not> fs_existsSync ?h0 (candidate ?h0 ''/ws'' ''foo'' 0)"
    by (simp_all add: c j)
  show ?thesis
    using resolve_new_subfolder [of ?h1 "''/ws''" 1 ?r "[]"]
      resolve_new_subfolder [of ?h2 "''/ws''" 2 ?r "[]"]
      resolve_new_subfolder [of ?h0 "''/ws''" 0 ?r "[]"] m e1 e2 e0
    by (simp add: c j)
qed

section \<open>What the workspace inspection collects\<close>

lemma set_checkFiles:
  "set (checkFiles items files acc) = set acc \<union> {f \<in> set files. f \<in> set items}"
  by (induction files arbitrary: acc) auto

lemma set_checkDirectories:
  "set (checkDirectories h root items dirs acc)
     = set acc \<union> {d @ ''/'' | d. d \<in> set dirs \<and> d \<in> set items
                              \<and> fs_statSync h (path_join h root d) = Some Directory}"
proof (induction dirs arbitrary: acc)
  case Nil
  then show ?case by simp
next
  case (Cons d dirs)
  show ?case
    unfolding checkDirectories.simps Cons.IH
    by (auto simp: isDirectory_def split: option.splits)
qed

text \<open>
  What \<open>detect\<close> collects from a directory that it can list: the marker
  filenames that are names of entries, of whatever type, and the marker directory
  names, with a slash, that are names of entries for which \<open>statSync\<close> reports a
  directory.
\<close>

lemma detect_members:
  assumes "fs_readdirSync h root = Some items"
  shows "m \<in> set (detectedFiles (detect h root)) \<longleftrightarrow>
           (m \<in> set COMMON_FILES \<and> m \<in> set items)
         \<or> (\<exists>d\<in>set COMMON_DIRECTORIES. m = d @ ''/'' \<and> d \<in> set items
                \<and> fs_statSync h (path_join h root d) = Some Directory)"
  using assms by (auto simp: detect_def Let_def set_checkFiles set_checkDirectories)

text \<open>
  Claim C8. The claim asks that a marker filename is collected only for an entry
  that is a file. The loop over the directory names checks the type of the entry;
  the loop over the filenames does not. In a workspace whose only entry is a
  directory named \<open>Makefile\<close>, \<open>detect\<close> collects \<open>Makefile\<close> and reports
  markers; a directory \<open>.git\<close> is collected twice, as \<open>.git\<close> and as \<open>.git/\<close>;
  a file named \<open>src\<close> is not collected.
\<close>

theorem detect_directory_as_file:
  "fs_readdirSync (example_host (Some [(''Makefile'', Directory)]) [] []) ''/ws'' = Some [''Makefile'']
   \<and> fs_statSync (example_host (Some [(''Makefile'', Directory)]) [] []) ''/ws/Makefile'' = Some Directory
   \<and> detect (example_host (Some [(''Makefile'', Directory)]) [] []) ''/ws''
       = \<lparr>hasCommonFiles = True, detectedFiles = [''Makefile'']\<rparr>
   \<and> detect (example_host (Some [(''.git'', Directory)]) [] []) ''/ws''
       = \<lparr>hasCommonFiles = True, detectedFiles = [''.git'', ''.git/'']\<rparr>
   \<and> detect (example_host (Some [(''src'', RegularFile)]) [] []) ''/ws''
       = \<lparr>hasCommonFiles = False, detectedFiles = []\<rparr>"
  by code_simp

end
